theory Spec2Isabelle
  imports Main "HOL-Library.Sublist"
begin

section \<open>JavaScript values\<close>

text \<open>
  The client (\<^verbatim>\<open>src/ExpoClient.ts\<close>) handles values whose TypeScript type is
  \<^verbatim>\<open>any\<close> or \<^verbatim>\<open>unknown\<close>: whatever \<^verbatim>\<open>JSON.parse\<close> returns for a response body. They
  are modelled as JSON values; \<open>None\<close> stands for \<^verbatim>\<open>undefined\<close>. Numbers are restricted
  to integers: the client looks at a number only to test whether it is zero and to print
  it. A string is a list of 8-bit characters: ASCII text, which is what the client's own
  patterns and messages are made of.
\<close>

datatype json =
    JNull
  | JBool bool
  | JNum int
  | JStr string
  | JArr "json list"
  | JObj "(string \<times> json) list"

type_synonym jsval = "json option"

text \<open>The run-time type errors the client's code can raise.\<close>

datatype typeError =
  CannotReadProperty string | NotIterable | FetchFailed | CannotConvertToPrimitive

text \<open>\<^verbatim>\<open>!v\<close> is \<open>\<not> truthy v\<close>.\<close>

fun truthy :: "jsval \<Rightarrow> bool" where
  "truthy None = False"
| "truthy (Some JNull) = False"
| "truthy (Some (JBool b)) = b"
| "truthy (Some (JNum n)) = (n \<noteq> 0)"
| "truthy (Some (JStr s)) = (s \<noteq> [])"
| "truthy (Some (JArr xs)) = True"
| "truthy (Some (JObj kvs)) = True"

text \<open>\<^verbatim>\<open>Array.isArray(v)\<close>.\<close>

fun isArray :: "jsval \<Rightarrow> bool" where
  "isArray (Some (JArr xs)) = True"
| "isArray _ = False"

text \<open>
  \<^verbatim>\<open>v.k\<close> for the property names the client reads (\<^verbatim>\<open>errors\<close>, \<^verbatim>\<open>data\<close>, \<^verbatim>\<open>length\<close>,
  \<^verbatim>\<open>message\<close>, \<^verbatim>\<open>code\<close>, \<^verbatim>\<open>details\<close>, \<^verbatim>\<open>stack\<close>): reading a property of \<^verbatim>\<open>undefined\<close> or
  \<^verbatim>\<open>null\<close> raises a TypeError; an object yields the member (the last one, when
  \<^verbatim>\<open>JSON.parse\<close> saw the key twice) or \<^verbatim>\<open>undefined\<close>; arrays and strings have a
  \<^verbatim>\<open>length\<close>; every other read is \<^verbatim>\<open>undefined\<close>.
\<close>

fun ownProperty :: "json \<Rightarrow> string \<Rightarrow> jsval" where
  "ownProperty (JObj kvs) k = map_of (rev kvs) k"
| "ownProperty (JArr xs) k = (if k = ''length'' then Some (JNum (int (length xs))) else None)"
| "ownProperty (JStr s) k = (if k = ''length'' then Some (JNum (int (length s))) else None)"
| "ownProperty _ k = None"

fun getProp :: "jsval \<Rightarrow> string \<Rightarrow> typeError + jsval" where
  "getProp None k = Inl (CannotReadProperty k)"
| "getProp (Some JNull) k = Inl (CannotReadProperty k)"
| "getProp (Some v) k = Inr (ownProperty v k)"

text \<open>\<^verbatim>\<open>v[0]\<close>.\<close>

fun index0 :: "jsval \<Rightarrow> typeError + jsval" where
  "index0 None = Inl (CannotReadProperty ''0'')"
| "index0 (Some JNull) = Inl (CannotReadProperty ''0'')"
| "index0 (Some (JArr xs)) = Inr (case xs of [] \<Rightarrow> None | x # _ \<Rightarrow> Some x)"
| "index0 (Some (JStr s)) = Inr (case s of [] \<Rightarrow> None | c # _ \<Rightarrow> Some (JStr [c]))"
| "index0 (Some (JObj kvs)) = Inr (map_of (rev kvs) ''0'')"
| "index0 (Some _) = Inr None"

text \<open>Array destructuring \<^verbatim>\<open>[x, ...rest] = v\<close> needs an iterable: an array or a string.\<close>

fun iterate :: "jsval \<Rightarrow> typeError + json list" where
  "iterate (Some (JArr xs)) = Inr xs"
| "iterate (Some (JStr s)) = Inr (map (\<lambda>c. JStr [c]) s)"
| "iterate _ = Inl NotIterable"

text \<open>
  Conversion to a string, as a template literal and \<^verbatim>\<open>new Error(v)\<close> do it (the
  operation ToString of the language). A number is printed by the engine's
  \<^verbatim>\<open>Number.prototype.toString\<close>: it is the parameter \<open>Number_toString\<close> of the
  conversion, and of every function of the client that prints a number. An object that
  \<^verbatim>\<open>JSON.parse\<close> built is converted by the method \<^verbatim>\<open>toString\<close> it inherits, which
  returns \<^verbatim>\<open>[object Object]\<close>, unless it has a member named \<^verbatim>\<open>toString\<close> of its own:
  a member is never a function, \<^verbatim>\<open>valueOf\<close> yields no primitive value either, and
  the conversion raises a TypeError. An array is converted by joining its elements with
  commas, each converted in turn, from the left; an element \<^verbatim>\<open>null\<close> gives the empty
  string.
\<close>

fun joinWith :: "string \<Rightarrow> (typeError + string) list \<Rightarrow> typeError + string" where
  "joinWith sep [] = Inr []"
| "joinWith sep [x] = x"
| "joinWith sep (x # y # ys) =
     (case x of
        Inl t \<Rightarrow> Inl t
      | Inr s \<Rightarrow> (case joinWith sep (y # ys) of Inl t \<Rightarrow> Inl t | Inr r \<Rightarrow> Inr (s @ sep @ r)))"

fun jsonToString :: "(int \<Rightarrow> string) \<Rightarrow> json \<Rightarrow> typeError + string" where
  "jsonToString Number_toString JNull = Inr ''null''"
| "jsonToString Number_toString (JBool b) = Inr (if b then ''true'' else ''false'')"
| "jsonToString Number_toString (JNum n) = Inr (Number_toString n)"
| "jsonToString Number_toString (JStr s) = Inr s"
| "jsonToString Number_toString (JArr xs) =
     joinWith '',''
       (map (\<lambda>x. if x = JNull then Inr [] else jsonToString Number_toString x) xs)"
| "jsonToString Number_toString (JObj kvs) =
     (if map_of (rev kvs) ''toString'' = None then Inr ''[object Object]''
      else Inl CannotConvertToPrimitive)"

definition ToString :: "(int \<Rightarrow> string) \<Rightarrow> jsval \<Rightarrow> typeError + string" where
  "ToString Number_toString v =
     (case v of None \<Rightarrow> Inr ''undefined'' | Some j \<Rightarrow> jsonToString Number_toString j)"

section \<open>Messages and the chunker\<close>

type_synonym ExpoPushToken = string

text \<open>The \<^verbatim>\<open>to\<close> field: \<^verbatim>\<open>ExpoPushToken | ExpoPushToken[]\<close>.\<close>

datatype recipients = Single ExpoPushToken | Multiple "ExpoPushToken list"

datatype priority = Default | Normal | High

record ExpoPushMessage =
  to :: recipients
  data :: "json option"
  title :: "string option"
  subtitle :: "string option"
  body :: "string option"
  sound :: "json option"
  ttl :: "int option"
  expiration :: "int option"
  priority :: "priority option"
  badge :: "int option"
  channelId :: "string option"
  categoryId :: "string option"
  mutableContent :: "bool option"

definition PUSH_NOTIFICATION_CHUNK_LIMIT :: nat where
  "PUSH_NOTIFICATION_CHUNK_LIMIT = 100"

text \<open>
  The local variables of \<^verbatim>\<open>chunkPushNotifications\<close>: the closed chunks, the open chunk
  and the number of recipients in the open chunk.
\<close>

record chunker =
  chunks :: "ExpoPushMessage list list"
  chunk :: "ExpoPushMessage list"
  chunkMessagesCount :: nat

text \<open>
  The inner loop \<^verbatim>\<open>for (const recipient of message.to)\<close>, with \<^verbatim>\<open>partialTo\<close> as a
  second component of the state. \<^verbatim>\<open>{ ...message, to: partialTo }\<close> is the record update
  \<open>message\<lparr>to := Multiple partialTo\<rparr>\<close>.
\<close>

fun recipientLoop ::
  "ExpoPushMessage \<Rightarrow> ExpoPushToken list \<Rightarrow> chunker \<times> ExpoPushToken list
     \<Rightarrow> chunker \<times> ExpoPushToken list" where
  "recipientLoop message [] (s, partialTo) = (s, partialTo)"
| "recipientLoop message (recipient # rest) (s, partialTo) =
     (let partialTo' = partialTo @ [recipient];
          n = chunkMessagesCount s + 1
      in if n \<ge> PUSH_NOTIFICATION_CHUNK_LIMIT
         then recipientLoop message rest
                (\<lparr>chunks = chunks s @ [chunk s @ [message\<lparr>to := Multiple partialTo'\<rparr>]],
                  chunk = [], chunkMessagesCount = 0\<rparr>, [])
         else recipientLoop message rest (s\<lparr>chunkMessagesCount := n\<rparr>, partialTo'))"

text \<open>The check at the end of the outer loop's body.\<close>

definition capChunk :: "chunker \<Rightarrow> chunker" where
  "capChunk s =
     (if chunkMessagesCount s \<ge> PUSH_NOTIFICATION_CHUNK_LIMIT
      then \<lparr>chunks = chunks s @ [chunk s], chunk = [], chunkMessagesCount = 0\<rparr>
      else s)"

text \<open>One round of the outer loop \<^verbatim>\<open>for (const message of messages)\<close>.\<close>

definition messageStep :: "chunker \<Rightarrow> ExpoPushMessage \<Rightarrow> chunker" where
  "messageStep s message =
     capChunk
       (case to message of
          Multiple recipientList \<Rightarrow>
            (let (s', partialTo) = recipientLoop message recipientList (s, [])
             in if partialTo \<noteq> []
                then s'\<lparr>chunk := chunk s' @ [message\<lparr>to := Multiple partialTo\<rparr>]\<rparr>
                else s')
        | Single _ \<Rightarrow>
            s\<lparr>chunk := chunk s @ [message], chunkMessagesCount := chunkMessagesCount s + 1\<rparr>)"

definition chunkPushNotifications :: "ExpoPushMessage list \<Rightarrow> ExpoPushMessage list list" where
  "chunkPushNotifications messages =
     (let s = foldl messageStep \<lparr>chunks = [], chunk = [], chunkMessagesCount = 0\<rparr> messages
      in if chunkMessagesCount s \<noteq> 0 then chunks s @ [chunk s] else chunks s)"

text \<open>\<^verbatim>\<open>Expo._getActualMessageCount\<close>: a reduce over the messages, from 0.\<close>

definition getActualMessageCount :: "ExpoPushMessage list \<Rightarrow> nat" where
  "getActualMessageCount messages =
     foldl (\<lambda>total message.
              case to message of Multiple l \<Rightarrow> total + length l | Single _ \<Rightarrow> total + 1)
       0 messages"

section \<open>The token predicate\<close>

text \<open>
  \<^verbatim>\<open>isExpoPushToken\<close> tests its argument against the regular expression
  \<^verbatim>\<open>/^[a-z\d]{8}-[a-z\d]{4}-[a-z\d]{4}-[a-z\d]{4}-[a-z\d]{12}$/i\<close>. The expression is a
  sequence of atoms, each repeated a fixed number of times, between the anchors \<^verbatim>\<open>^\<close>
  and \<^verbatim>\<open>$\<close> (no \<^verbatim>\<open>m\<close> flag: they match the two ends of the input only). With the flag
  \<^verbatim>\<open>i\<close>, a character matches an atom when its canonical form (its upper case) is the
  canonical form of a character of the atom.
\<close>

definition asciiLower :: string where
  "asciiLower = ''abcdefghijklmnopqrstuvwxyz''"

definition asciiUpper :: string where
  "asciiUpper = ''ABCDEFGHIJKLMNOPQRSTUVWXYZ''"

definition asciiDigits :: string where
  "asciiDigits = ''0123456789''"

definition canonicalize :: "bool \<Rightarrow> char \<Rightarrow> char" where
  "canonicalize ignoreCase c =
     (if ignoreCase
      then (case map_of (zip asciiLower asciiUpper) c of Some u \<Rightarrow> u | None \<Rightarrow> c)
      else c)"

datatype atom = ClassLowerOrDigit | Literal char

datatype piece = Repeat atom nat

definition atomChars :: "atom \<Rightarrow> char list" where
  "atomChars a = (case a of ClassLowerOrDigit \<Rightarrow> asciiLower @ asciiDigits | Literal c \<Rightarrow> [c])"

definition atomMatches :: "bool \<Rightarrow> atom \<Rightarrow> char \<Rightarrow> bool" where
  "atomMatches ignoreCase a c \<longleftrightarrow>
     canonicalize ignoreCase c \<in> set (map (canonicalize ignoreCase) (atomChars a))"

fun matchAnchored :: "bool \<Rightarrow> piece list \<Rightarrow> string \<Rightarrow> bool" where
  "matchAnchored ignoreCase [] s = (s = [])"
| "matchAnchored ignoreCase (Repeat a 0 # ps) s = matchAnchored ignoreCase ps s"
| "matchAnchored ignoreCase (Repeat a (Suc n) # ps) [] = False"
| "matchAnchored ignoreCase (Repeat a (Suc n) # ps) (c # cs) =
     (atomMatches ignoreCase a c \<and> matchAnchored ignoreCase (Repeat a n # ps) cs)"

definition uuidPattern :: "piece list" where
  "uuidPattern =
     [Repeat ClassLowerOrDigit 8, Repeat (Literal CHR ''-'') 1,
      Repeat ClassLowerOrDigit 4, Repeat (Literal CHR ''-'') 1,
      Repeat ClassLowerOrDigit 4, Repeat (Literal CHR ''-'') 1,
      Repeat ClassLowerOrDigit 4, Repeat (Literal CHR ''-'') 1,
      Repeat ClassLowerOrDigit 12]"

text \<open>\<^verbatim>\<open>startsWith\<close> and \<^verbatim>\<open>endsWith\<close> are \<open>prefix\<close> and \<open>suffix\<close>.\<close>

definition isExpoPushToken :: "jsval \<Rightarrow> bool" where
  "isExpoPushToken token =
     (case token of
        Some (JStr s) \<Rightarrow>
          ((prefix ''ExponentPushToken['' s \<or> prefix ''ExpoPushToken['' s) \<and> suffix '']'' s)
          \<or> matchAnchored True uuidPattern s
      | _ \<Rightarrow> False)"

section \<open>Errors and the response normalizer\<close>

text \<open>
  \<^verbatim>\<open>ExtensibleError\<close>: an \<^verbatim>\<open>Error\<close> with a message and the fields the client attaches.
  A field the client never assigned is \<open>None\<close>. The field \<^verbatim>\<open>data\<close> of the error is
  \<open>data'\<close> here (the message's field keeps the name \<open>data\<close>).
\<close>

datatype ExtensibleError = ErrorObject
  (message: string)
  (statusCode: "nat option")
  (errorText: "string option")
  (errorData: "json option")
  (code: jsval)
  (details: jsval)
  (serverStack: jsval)
  (others: "ExtensibleError list option")
  (data': jsval)

text \<open>\<^verbatim>\<open>new Error(msg)\<close>, and the assignments \<^verbatim>\<open>error.field = v\<close>.\<close>

definition Error :: "string \<Rightarrow> ExtensibleError" where
  "Error msg = ErrorObject msg None None None None None None None None"

fun set_statusCode :: "nat \<Rightarrow> ExtensibleError \<Rightarrow> ExtensibleError" where
  "set_statusCode v (ErrorObject m sc et ed c d ss os da) =
     ErrorObject m (Some v) et ed c d ss os da"

fun set_errorText :: "string \<Rightarrow> ExtensibleError \<Rightarrow> ExtensibleError" where
  "set_errorText v (ErrorObject m sc et ed c d ss os da) =
     ErrorObject m sc (Some v) ed c d ss os da"

fun set_errorData :: "json \<Rightarrow> ExtensibleError \<Rightarrow> ExtensibleError" where
  "set_errorData v (ErrorObject m sc et ed c d ss os da) =
     ErrorObject m sc et (Some v) c d ss os da"

fun set_code :: "jsval \<Rightarrow> ExtensibleError \<Rightarrow> ExtensibleError" where
  "set_code v (ErrorObject m sc et ed c d ss os da) = ErrorObject m sc et ed v d ss os da"

fun set_details :: "jsval \<Rightarrow> ExtensibleError \<Rightarrow> ExtensibleError" where
  "set_details v (ErrorObject m sc et ed c d ss os da) = ErrorObject m sc et ed c v ss os da"

fun set_serverStack :: "jsval \<Rightarrow> ExtensibleError \<Rightarrow> ExtensibleError" where
  "set_serverStack v (ErrorObject m sc et ed c d ss os da) = ErrorObject m sc et ed c d v os da"

fun set_others :: "ExtensibleError list \<Rightarrow> ExtensibleError \<Rightarrow> ExtensibleError" where
  "set_others v (ErrorObject m sc et ed c d ss os da) =
     ErrorObject m sc et ed c d ss (Some v) da"

fun set_data :: "jsval \<Rightarrow> ExtensibleError \<Rightarrow> ExtensibleError" where
  "set_data v (ErrorObject m sc et ed c d ss os da) = ErrorObject m sc et ed c d ss os v"

text \<open>What a call can throw: an error the client built, or a TypeError of the run time.\<close>

datatype thrown = Thrown ExtensibleError | TypeError typeError

text \<open>
  A response as the client reads it: its status and its body, read fully as text.
  \<^verbatim>\<open>JSON.parse\<close> is a parameter \<open>JSON_parse\<close> of the functions that call it: \<open>None\<close> when
  it throws, the parsed value otherwise. \<open>Number_toString\<close>, which prints a number, is a
  parameter in the same way.
\<close>

record Response =
  status :: nat
  bodyText :: string

definition getTextResponseErrorAsync ::
  "(int \<Rightarrow> string) \<Rightarrow> Response \<Rightarrow> string \<Rightarrow> ExtensibleError" where
  "getTextResponseErrorAsync Number_toString response txt =
     set_errorText txt
       (set_statusCode (status response)
          (Error (''Expo responded with an error with status code ''
                    @ Number_toString (int (status response)) @ '': '' @ txt)))"

text \<open>\<^verbatim>\<open>v != null\<close>.\<close>

definition notNullish :: "jsval \<Rightarrow> bool" where
  "notNullish v \<longleftrightarrow> v \<noteq> None \<and> v \<noteq> Some JNull"

text \<open>
  \<^verbatim>\<open>new Error(errorData.message)\<close> reads the member and converts it to a string, unless
  it is \<^verbatim>\<open>undefined\<close>: then the error has the empty message. The conversion comes
  before the other members are read.
\<close>

definition getErrorFromResultError ::
  "(int \<Rightarrow> string) \<Rightarrow> jsval \<Rightarrow> thrown + ExtensibleError" where
  "getErrorFromResultError Number_toString errorDatum =
     (case getProp errorDatum ''message'' of
        Inl t \<Rightarrow> Inl (TypeError t)
      | Inr msg \<Rightarrow>
          (case (case msg of None \<Rightarrow> Inr [] | Some m \<Rightarrow> jsonToString Number_toString m) of
             Inl t \<Rightarrow> Inl (TypeError t)
           | Inr str \<Rightarrow>
               (case getProp errorDatum ''code'' of
                  Inl t \<Rightarrow> Inl (TypeError t)
                | Inr c \<Rightarrow>
                    (case getProp errorDatum ''details'' of
                       Inl t \<Rightarrow> Inl (TypeError t)
                     | Inr d \<Rightarrow>
                         (case getProp errorDatum ''stack'' of
                            Inl t \<Rightarrow> Inl (TypeError t)
                          | Inr st \<Rightarrow>
                              (let error = Error str;
                                   error = set_code c error;
                                   error = (if notNullish d then set_details d error else error);
                                   error = (if notNullish st then set_serverStack st error else error)
                               in Inr error))))))"

text \<open>\<^verbatim>\<open>otherErrorData.map((data) => this.getErrorFromResultError(data))\<close>.\<close>

fun mapErrors :: "(int \<Rightarrow> string) \<Rightarrow> json list \<Rightarrow> thrown + ExtensibleError list" where
  "mapErrors Number_toString [] = Inr []"
| "mapErrors Number_toString (d # ds) =
     (case getErrorFromResultError Number_toString (Some d) of
        Inl t \<Rightarrow> Inl t
      | Inr e \<Rightarrow>
          (case mapErrors Number_toString ds of Inl t \<Rightarrow> Inl t | Inr es \<Rightarrow> Inr (e # es)))"

definition getErrorFromResult ::
  "(int \<Rightarrow> string) \<Rightarrow> Response \<Rightarrow> json \<Rightarrow> thrown + ExtensibleError" where
  "getErrorFromResult Number_toString response result =
     (case getProp (Some result) ''errors'' of
        Inl t \<Rightarrow> Inl (TypeError t)
      | Inr errors \<Rightarrow>
          if \<not> truthy errors
             \<or> \<not> (case index0 errors of Inl t \<Rightarrow> False | Inr first \<Rightarrow> truthy first)
          then Inl (Thrown (Error ''Expected at least one error from Expo''))
          else
            (case iterate errors of
               Inl t \<Rightarrow> Inl (TypeError t)
             | Inr items \<Rightarrow>
                 (let errorDatum = (case items of [] \<Rightarrow> None | x # _ \<Rightarrow> Some x);
                      otherErrorData = tl items
                  in case getErrorFromResultError Number_toString errorDatum of
                       Inl t \<Rightarrow> Inl t
                     | Inr error \<Rightarrow>
                         (if otherErrorData \<noteq> []
                          then (case mapErrors Number_toString otherErrorData of
                                  Inl t \<Rightarrow> Inl t
                                | Inr os \<Rightarrow>
                                    Inr (set_statusCode (status response) (set_others os error)))
                          else Inr (set_statusCode (status response) error)))))"

definition parseErrorResponseAsync ::
  "(string \<Rightarrow> json option) \<Rightarrow> (int \<Rightarrow> string) \<Rightarrow> Response \<Rightarrow> thrown + ExtensibleError" where
  "parseErrorResponseAsync JSON_parse Number_toString response =
     (let textBody = bodyText response
      in case JSON_parse textBody of
           None \<Rightarrow> Inr (getTextResponseErrorAsync Number_toString response textBody)
         | Some result \<Rightarrow>
             (case getProp (Some result) ''errors'' of
                Inl t \<Rightarrow> Inl (TypeError t)
              | Inr errors \<Rightarrow>
                  if \<not> truthy errors \<or> \<not> isArray errors
                     \<or> \<not> (case getProp errors ''length'' of Inl t \<Rightarrow> False | Inr n \<Rightarrow> truthy n)
                  then Inr (set_errorData result (getTextResponseErrorAsync Number_toString response textBody))
                  else getErrorFromResult Number_toString response result))"

text \<open>
  \<^verbatim>\<open>requestAsync\<close>, from the outcome of \<^verbatim>\<open>fetch\<close> on: a rejection of \<^verbatim>\<open>fetch\<close> passes
  through. (The request's headers, its body and the compression decide what is sent,
  not how the answer is read.)
\<close>

definition requestAsync ::
  "(string \<Rightarrow> json option) \<Rightarrow> (int \<Rightarrow> string) \<Rightarrow> thrown + Response \<Rightarrow> thrown + jsval" where
  "requestAsync JSON_parse Number_toString fetched =
     (case fetched of
        Inl t \<Rightarrow> Inl t
      | Inr response \<Rightarrow>
          if status response \<noteq> 200
          then (case parseErrorResponseAsync JSON_parse Number_toString response of
                  Inl t \<Rightarrow> Inl t
                | Inr apiError \<Rightarrow> Inl (Thrown apiError))
          else
            (let textBody = bodyText response
             in case JSON_parse textBody of
                  None \<Rightarrow> Inl (Thrown (getTextResponseErrorAsync Number_toString response textBody))
                | Some result \<Rightarrow>
                    (case getProp (Some result) ''errors'' of
                       Inl t \<Rightarrow> Inl (TypeError t)
                     | Inr errors \<Rightarrow>
                         if truthy errors
                         then (case getErrorFromResult Number_toString response result of
                                 Inl t \<Rightarrow> Inl t
                               | Inr apiError \<Rightarrow> Inl (Thrown apiError))
                         else (case getProp (Some result) ''data'' of
                                 Inl t \<Rightarrow> Inl (TypeError t)
                               | Inr d \<Rightarrow> Inr d))))"

section \<open>The retrying executor and the dispatcher\<close>

record retryOptions =
  retries :: nat
  factor :: nat
  minTimeout :: nat

definition REQUEST_RETRY_OPTIONS :: retryOptions where
  "REQUEST_RETRY_OPTIONS = \<lparr>retries = 2, factor = 2, minTimeout = 1000\<rparr>"

text \<open>\<^verbatim>\<open>shouldRetry: (error: any) => error.statusCode === 429\<close>.\<close>

definition shouldRetry :: "thrown \<Rightarrow> bool" where
  "shouldRetry error =
     (case error of Thrown e \<Rightarrow> statusCode e = Some 429 | TypeError _ \<Rightarrow> False)"

text \<open>
  Modelled from the spec: \<^verbatim>\<open>promiseRetry\<close> is the package \<^verbatim>\<open>p-retry\<close>, which is not
  under \<^verbatim>\<open>src/\<close>. The spec's words (4.3, 9): an explicit loop with an attempt counter;
  on failure, if the error is one to retry and retries are left, wait
  \<open>base * factor ^ attempt\<close> (1000ms, then 2000ms) and run the unit again; any other
  error propagates at once; when the retries are used up the last error propagates.
  \<open>work n\<close> is the outcome of the \<open>n\<close>-th run of the unit (from 1); the result is the
  call's outcome and the delays it waited, in milliseconds.
\<close>

fun retryFrom ::
  "retryOptions \<Rightarrow> (thrown \<Rightarrow> bool) \<Rightarrow> (nat \<Rightarrow> thrown + 'a) \<Rightarrow> nat \<Rightarrow> nat
     \<Rightarrow> (thrown + 'a) \<times> nat list" where
  "retryFrom opts should work attempt 0 = (work attempt, [])"
| "retryFrom opts should work attempt (Suc left) =
     (case work attempt of
        Inr v \<Rightarrow> (Inr v, [])
      | Inl e \<Rightarrow>
          if should e
          then (let delay = minTimeout opts * factor opts ^ (attempt - 1);
                    (r, delays) = retryFrom opts should work (attempt + 1) left
                in (r, delay # delays))
          else (Inl e, []))"

definition promiseRetry ::
  "(nat \<Rightarrow> thrown + 'a) \<Rightarrow> retryOptions \<Rightarrow> (thrown \<Rightarrow> bool) \<Rightarrow> (thrown + 'a) \<times> nat list" where
  "promiseRetry work opts should = retryFrom opts should work 1 (retries opts)"

text \<open>
  Modelled from the spec: \<^verbatim>\<open>limitConcurrentRequests\<close> is the package \<^verbatim>\<open>p-limit\<close>, which
  is not under \<^verbatim>\<open>src/\<close>. The spec's words (4.3): it bounds how many units run at once
  and queues the rest; it decides when a unit starts, not what it returns. One call,
  taken alone, gets its unit's outcome.
\<close>

definition limitConcurrentRequests :: "'a \<Rightarrow> 'a" where
  "limitConcurrentRequests thunk = thunk"

text \<open>
  \<^verbatim>\<open>sendPushNotificationsAsync\<close>. \<open>fetch n\<close> is what the \<open>n\<close>-th call of \<^verbatim>\<open>fetch\<close> comes
  to. The template literal of the error message reads \<^verbatim>\<open>data.length\<close>, whatever
  \<^verbatim>\<open>data\<close> is; \<^verbatim>\<open>return data\<close> returns the payload itself. The result is the call's
  outcome and the delays it waited.
\<close>

definition sendPushNotificationsAsync ::
  "(string \<Rightarrow> json option) \<Rightarrow> (int \<Rightarrow> string) \<Rightarrow> (nat \<Rightarrow> thrown + Response)
     \<Rightarrow> ExpoPushMessage list \<Rightarrow> (thrown + jsval) \<times> nat list" where
  "sendPushNotificationsAsync JSON_parse Number_toString fetch messages =
     (let actualMessagesCount = getActualMessageCount messages;
          (outcome, delays) =
            limitConcurrentRequests
              (promiseRetry (\<lambda>attempt. requestAsync JSON_parse Number_toString (fetch attempt))
                 REQUEST_RETRY_OPTIONS shouldRetry)
      in case outcome of
           Inl t \<Rightarrow> (Inl t, delays)
         | Inr payload \<Rightarrow>
             if \<not> isArray payload
                \<or> getProp payload ''length'' \<noteq> Inr (Some (JNum (int actualMessagesCount)))
             then (case getProp payload ''length'' of
                     Inl t \<Rightarrow> (Inl (TypeError t), delays)
                   | Inr len \<Rightarrow>
                       (case ToString Number_toString len of
                          Inl t \<Rightarrow> (Inl (TypeError t), delays)
                        | Inr got \<Rightarrow>
                            (Inl (Thrown (set_data payload
                               (Error (''Expected Expo to respond with ''
                                  @ Number_toString (int actualMessagesCount) @ '' ''
                                  @ (if actualMessagesCount = 1 then ''ticket'' else ''tickets'')
                                  @ '' but got '' @ got)))),
                             delays)))
             else (Inr payload, delays))"

section \<open>The concurrency limiter\<close>

text \<open>
  The constructor of \<^verbatim>\<open>Expo\<close> creates the limiter with
  \<^verbatim>\<open>options.maxConcurrentRequests\<close>, or with the default when the option is \<^verbatim>\<open>null\<close> or
  \<^verbatim>\<open>undefined\<close>.

  Modelled from the spec: the limiter itself is the package \<^verbatim>\<open>p-limit\<close>, which is not
  under \<^verbatim>\<open>src/\<close>. The spec's words (4.3, 9): a queue of pending work with FIFO
  admission and a count of the work in progress; no more than \<open>C\<close> units run at once,
  the others wait and begin as capacity frees; the slot is released when the unit
  settles. A unit is one call of \<^verbatim>\<open>sendPushNotificationsAsync\<close>: the thunk handed to the
  limiter is the whole retry loop, so all the transport calls of a unit, retries
  included, fall between its beginning and its settling. The limiter is a transition
  system: \<open>step\<close> is \<open>None\<close> on an event that cannot happen in the state.
\<close>

definition DEFAULT_CONCURRENT_REQUEST_LIMIT :: nat where
  "DEFAULT_CONCURRENT_REQUEST_LIMIT = 6"

type_synonym unitId = nat

text \<open>
  The state: the maximum, the units that wait (oldest first), the units that hold a
  slot, the units with a transport call in flight, and two logs: the units in the
  order they were submitted and in the order they began.
\<close>

record limiter =
  concurrency :: nat
  queue :: "unitId list"
  active :: "unitId list"
  inFlight :: "unitId list"
  submitted :: "unitId list"
  began :: "unitId list"

definition newLimiter :: "nat option \<Rightarrow> limiter" where
  "newLimiter maxConcurrentRequests =
     \<lparr>concurrency = (case maxConcurrentRequests of
                        Some n \<Rightarrow> n
                      | None \<Rightarrow> DEFAULT_CONCURRENT_REQUEST_LIMIT),
      queue = [], active = [], inFlight = [], submitted = [], began = []\<rparr>"

text \<open>
  What can happen: a unit is submitted; a unit that holds a slot starts a transport
  call; its call ends; a unit with no call in flight settles and frees its slot.
\<close>

datatype event = Submit unitId | CallStart unitId | CallEnd unitId | Settle unitId

text \<open>The oldest waiting unit begins when a slot is free.\<close>

definition admit :: "limiter \<Rightarrow> limiter" where
  "admit s =
     (case queue s of
        [] \<Rightarrow> s
      | u # rest \<Rightarrow>
          if length (active s) < concurrency s
          then s\<lparr>queue := rest, active := active s @ [u], began := began s @ [u]\<rparr>
          else s)"

fun step :: "limiter \<Rightarrow> event \<Rightarrow> limiter option" where
  "step s (Submit u) =
     (if u \<in> set (submitted s) then None
      else Some (admit (s\<lparr>queue := queue s @ [u], submitted := submitted s @ [u]\<rparr>)))"
| "step s (CallStart u) =
     (if u \<in> set (active s) \<and> u \<notin> set (inFlight s)
      then Some (s\<lparr>inFlight := inFlight s @ [u]\<rparr>) else None)"
| "step s (CallEnd u) =
     (if u \<in> set (inFlight s)
      then Some (s\<lparr>inFlight := removeAll u (inFlight s)\<rparr>) else None)"
| "step s (Settle u) =
     (if u \<in> set (active s) \<and> u \<notin> set (inFlight s)
      then Some (admit (s\<lparr>active := removeAll u (active s)\<rparr>)) else None)"

fun run :: "limiter \<Rightarrow> event list \<Rightarrow> limiter option" where
  "run s [] = Some s"
| "run s (e # es) = (case step s e of None \<Rightarrow> None | Some s' \<Rightarrow> run s' es)"

text \<open>The invariant of the limiter.\<close>

definition limiterInv :: "limiter \<Rightarrow> bool" where
  "limiterInv s \<longleftrightarrow>
     distinct (submitted s) \<and> began s @ queue s = submitted s \<and>
     set (active s) \<subseteq> set (began s) \<and> distinct (active s) \<and>
     length (active s) \<le> concurrency s \<and>
     set (inFlight s) \<subseteq> set (active s) \<and> distinct (inFlight s) \<and>
     (queue s \<noteq> [] \<longrightarrow> length (active s) = concurrency s)"

section \<open>Notions the properties are stated with\<close>

text \<open>The recipients of a message, of a list of messages, and of the chunker's state.\<close>

definition recipientsOf :: "ExpoPushMessage \<Rightarrow> ExpoPushToken list" where
  "recipientsOf m = (case to m of Multiple l \<Rightarrow> l | Single t \<Rightarrow> [t])"

definition flatRecipients :: "ExpoPushMessage list \<Rightarrow> ExpoPushToken list" where
  "flatRecipients ms = concat (map recipientsOf ms)"

definition flatState :: "chunker \<Rightarrow> ExpoPushToken list" where
  "flatState s = concat (map flatRecipients (chunks s)) @ flatRecipients (chunk s)"

text \<open>
  The loop invariant: the counter is the number of recipients in the open chunk plus
  those waiting in \<^verbatim>\<open>partialTo\<close>, it is below the limit, and every closed chunk is full.
\<close>

definition chunkerInv :: "chunker \<Rightarrow> ExpoPushToken list \<Rightarrow> bool" where
  "chunkerInv s partialTo \<longleftrightarrow>
     chunkMessagesCount s = length (flatRecipients (chunk s)) + length partialTo \<and>
     chunkMessagesCount s < PUSH_NOTIFICATION_CHUNK_LIMIT \<and>
     list_all (\<lambda>b. length (flatRecipients b) = PUSH_NOTIFICATION_CHUNK_LIMIT) (chunks s)"

definition fragment :: "ExpoPushMessage \<Rightarrow> ExpoPushToken list \<Rightarrow> ExpoPushMessage" where
  "fragment m partialTo = m\<lparr>to := Multiple partialTo\<rparr>"

text \<open>The chunks one list-valued message closes, from the open chunk \<open>c\<close> on.\<close>

definition closedBatches ::
  "ExpoPushMessage list \<Rightarrow> ExpoPushMessage \<Rightarrow> ExpoPushToken list list
     \<Rightarrow> ExpoPushMessage list list" where
  "closedBatches c m segs =
     (case segs of [] \<Rightarrow> []
      | g # gs \<Rightarrow> (c @ [fragment m g]) # map (\<lambda>g. [fragment m g]) gs)"

definition openView :: "chunker \<Rightarrow> ExpoPushMessage list list" where
  "openView s = chunks s @ [chunk s]"

definition finish :: "chunker \<Rightarrow> ExpoPushMessage list list" where
  "finish s = (if chunkMessagesCount s \<noteq> 0 then chunks s @ [chunk s] else chunks s)"

definition viewMessages :: "chunker \<Rightarrow> ExpoPushMessage set" where
  "viewMessages s = (\<Union>b\<in>set (openView s). set b)"

text \<open>
  \<open>x\<close> is what the chunker emits for the message \<open>m\<close>: \<open>m\<close> itself when its recipient is
  a single token, a copy of \<open>m\<close> with a non-empty run of \<open>m\<close>'s recipients otherwise.
\<close>

definition isFragmentOf :: "ExpoPushMessage \<Rightarrow> ExpoPushMessage \<Rightarrow> bool" where
  "isFragmentOf x m =
     (case to m of
        Single _ \<Rightarrow> x = m
      | Multiple ts \<Rightarrow> \<exists>seg. seg \<noteq> [] \<and> sublist seg ts \<and> x = m\<lparr>to := Multiple seg\<rparr>)"

text \<open>
  A UUID-shaped string, in the words of the specification: five groups of 8, 4, 4, 4
  and 12 characters, separated by hyphens; the characters are what the class
  \<^verbatim>\<open>[a-z\d]\<close> accepts when case is ignored, ASCII letters and digits.
\<close>

definition isLetterOrDigit :: "char \<Rightarrow> bool" where
  "isLetterOrDigit c \<longleftrightarrow> c \<in> set (asciiLower @ asciiUpper @ asciiDigits)"

definition uuidShaped :: "string \<Rightarrow> bool" where
  "uuidShaped s \<longleftrightarrow>
     (\<exists>g1 g2 g3 g4 g5.
        s = g1 @ ''-'' @ g2 @ ''-'' @ g3 @ ''-'' @ g4 @ ''-'' @ g5 \<and>
        length g1 = 8 \<and> length g2 = 4 \<and> length g3 = 4 \<and> length g4 = 4 \<and> length g5 = 12 \<and>
        list_all isLetterOrDigit (g1 @ g2 @ g3 @ g4 @ g5))"

text \<open>
  The values that convert to a string: every value but an object with a member named
  \<^verbatim>\<open>toString\<close>, and but a list with an element that does not convert. \<open>renderJson\<close> is
  the string such a value converts to.
\<close>

fun convertible :: "json \<Rightarrow> bool" where
  "convertible (JArr xs) = list_all convertible xs"
| "convertible (JObj kvs) = (ownProperty (JObj kvs) ''toString'' = None)"
| "convertible _ = True"

fun joinStrings :: "string \<Rightarrow> string list \<Rightarrow> string" where
  "joinStrings sep [] = []"
| "joinStrings sep [x] = x"
| "joinStrings sep (x # y # ys) = x @ sep @ joinStrings sep (y # ys)"

fun renderJson :: "(int \<Rightarrow> string) \<Rightarrow> json \<Rightarrow> string" where
  "renderJson Number_toString JNull = ''null''"
| "renderJson Number_toString (JBool b) = (if b then ''true'' else ''false'')"
| "renderJson Number_toString (JNum n) = Number_toString n"
| "renderJson Number_toString (JStr s) = s"
| "renderJson Number_toString (JArr xs) =
     joinStrings '','' (map (\<lambda>x. if x = JNull then [] else renderJson Number_toString x) xs)"
| "renderJson Number_toString (JObj kvs) = ''[object Object]''"

text \<open>
  The error \<^verbatim>\<open>getErrorFromResultError\<close> builds from an entry that is not \<^verbatim>\<open>null\<close> and
  whose message converts to a string.
\<close>

definition entryError :: "(int \<Rightarrow> string) \<Rightarrow> json \<Rightarrow> ExtensibleError" where
  "entryError Number_toString e =
     ErrorObject
       (case ownProperty e ''message'' of
          None \<Rightarrow> [] | Some m \<Rightarrow> renderJson Number_toString m)
       None None None
       (ownProperty e ''code'')
       (if notNullish (ownProperty e ''details'') then ownProperty e ''details'' else None)
       (if notNullish (ownProperty e ''stack'') then ownProperty e ''stack'' else None)
       None None"

text \<open>An entry has a message that converts to a string, or no message.\<close>

definition messageConverts :: "json \<Rightarrow> bool" where
  "messageConverts e =
     (case ownProperty e ''message'' of None \<Rightarrow> True | Some m \<Rightarrow> convertible m)"

section \<open>Examples\<close>

text \<open>
  Decimal notation. It stands for \<^verbatim>\<open>Number.prototype.toString\<close> in the examples, which
  print small integers only: a status code and a count of tickets.
\<close>

definition digitChar :: "nat \<Rightarrow> char" where
  "digitChar d = ''0123456789'' ! d"

fun decimal :: "nat \<Rightarrow> string" where
  "decimal n =
     (if n < 10 then [digitChar n]
      else decimal (n div 10) @ [digitChar (n mod 10)])"

declare decimal.simps [simp del]

definition exampleNumberToString :: "int \<Rightarrow> string" where
  "exampleNumberToString i =
     (if i < 0 then CHR ''-'' # decimal (nat (- i)) else decimal (nat i))"

definition exampleMessage :: "recipients \<Rightarrow> ExpoPushMessage" where
  "exampleMessage r =
     \<lparr>to = r, data = Some (JObj [(''orderId'', JNum 7)]), title = Some ''Hello'',
      subtitle = None, body = Some ''World'', sound = Some (JStr ''default''), ttl = None,
      expiration = None, priority = Some High, badge = Some 1, channelId = None,
      categoryId = None, mutableContent = None\<rparr>"

definition exampleTokens :: "nat \<Rightarrow> ExpoPushToken list" where
  "exampleTokens n = map (\<lambda>i. ''ExponentPushToken['' @ decimal i @ '']'') [0..<n]"

text \<open>
  A table that stands for \<^verbatim>\<open>JSON.parse\<close> in the examples: what \<^verbatim>\<open>JSON.parse\<close> returns on
  the JSON bodies the examples use. The only other body they use is an HTML page, on
  which \<^verbatim>\<open>JSON.parse\<close> throws.
\<close>

definition exampleParse :: "string \<Rightarrow> json option" where
  \<open>exampleParse s =
     map_of
       [(''null'', JNull),
        (''{}'', JObj []),
        (''{"errors":[null]}'', JObj [(''errors'', JArr [JNull])]),
        (''{"errors":[{"message":"bad","code":"X"}]}'',
           JObj [(''errors'', JArr [JObj [(''message'', JStr ''bad''), (''code'', JStr ''X'')]])]),
        (''{"errors":[{"message":{"toString":1},"code":"X"}]}'',
           JObj [(''errors'', JArr
             [JObj [(''message'', JObj [(''toString'', JNum 1)]), (''code'', JStr ''X'')]])]),
        (''{"errors":[{"message":"slow down","code":"RATE"},{"message":"also","code":"Y","details":{"n":1}}]}'',
           JObj [(''errors'', JArr
             [JObj [(''message'', JStr ''slow down''), (''code'', JStr ''RATE'')],
              JObj [(''message'', JStr ''also''), (''code'', JStr ''Y''),
                    (''details'', JObj [(''n'', JNum 1)])]])]),
        (''{"data":[{"status":"ok","id":"r1"}]}'',
           JObj [(''data'', JArr [JObj [(''status'', JStr ''ok''), (''id'', JStr ''r1'')]])])]
       s\<close>

definition respond :: "nat \<Rightarrow> string \<Rightarrow> nat \<Rightarrow> thrown + Response" where
  "respond st txt attempt = Inr \<lparr>status = st, bodyText = txt\<rparr>"

section \<open>Properties of the chunker\<close>

lemma limit_pos: "0 < PUSH_NOTIFICATION_CHUNK_LIMIT"
  by (simp add: PUSH_NOTIFICATION_CHUNK_LIMIT_def)

lemma flatRecipients_append [simp]:
  "flatRecipients (xs @ ys) = flatRecipients xs @ flatRecipients ys"
  by (simp add: flatRecipients_def)

lemma flatRecipients_Nil [simp]: "flatRecipients [] = []"
  by (simp add: flatRecipients_def)

lemma recipientsOf_fragment [simp]:
  "recipientsOf (m\<lparr>to := Multiple p\<rparr>) = p"
  by (simp add: recipientsOf_def)

lemma flatRecipients_single [simp]: "flatRecipients [m] = recipientsOf m"
  by (simp add: flatRecipients_def)

lemma recipientLoop_flat:
  "recipientLoop m rs (s, p) = (s', p') \<Longrightarrow> flatState s' @ p' = flatState s @ p @ rs"
proof (induction rs arbitrary: s p)
  case Nil
  then show ?case by simp
next
  case (Cons r rs)
  show ?case
  proof (cases "chunkMessagesCount s + 1 \<ge> PUSH_NOTIFICATION_CHUNK_LIMIT")
    case True
    with Cons.prems have
      "recipientLoop m rs
         (\<lparr>chunks = chunks s @ [chunk s @ [m\<lparr>to := Multiple (p @ [r])\<rparr>]],
           chunk = [], chunkMessagesCount = 0\<rparr>, []) = (s', p')"
      by (simp add: Let_def)
    from Cons.IH [OF this] show ?thesis
      by (simp add: flatState_def)
  next
    case False
    with Cons.prems have
      "recipientLoop m rs (s\<lparr>chunkMessagesCount := chunkMessagesCount s + 1\<rparr>, p @ [r]) = (s', p')"
      by (simp add: Let_def)
    from Cons.IH [OF this] show ?thesis
      by (simp add: flatState_def)
  qed
qed

lemma recipientLoop_inv:
  "recipientLoop m rs (s, p) = (s', p') \<Longrightarrow> chunkerInv s p \<Longrightarrow> chunkerInv s' p'"
proof (induction rs arbitrary: s p)
  case Nil
  then show ?case by simp
next
  case (Cons r rs)
  show ?case
  proof (cases "chunkMessagesCount s + 1 \<ge> PUSH_NOTIFICATION_CHUNK_LIMIT")
    case True
    with Cons.prems(1) have step:
      "recipientLoop m rs
         (\<lparr>chunks = chunks s @ [chunk s @ [m\<lparr>to := Multiple (p @ [r])\<rparr>]],
           chunk = [], chunkMessagesCount = 0\<rparr>, []) = (s', p')"
      by (simp add: Let_def)
    from True Cons.prems(2) have
      "chunkerInv \<lparr>chunks = chunks s @ [chunk s @ [m\<lparr>to := Multiple (p @ [r])\<rparr>]],
           chunk = [], chunkMessagesCount = 0\<rparr> []"
      using limit_pos by (auto simp: chunkerInv_def)
    from Cons.IH [OF step this] show ?thesis .
  next
    case False
    with Cons.prems(1) have step:
      "recipientLoop m rs (s\<lparr>chunkMessagesCount := chunkMessagesCount s + 1\<rparr>, p @ [r]) = (s', p')"
      by (simp add: Let_def)
    from False Cons.prems(2) have
      "chunkerInv (s\<lparr>chunkMessagesCount := chunkMessagesCount s + 1\<rparr>) (p @ [r])"
      by (auto simp: chunkerInv_def)
    from Cons.IH [OF step this] show ?thesis .
  qed
qed

lemma messageStep_flat:
  assumes "chunkerInv s []"
  shows "flatState (messageStep s m) = flatState s @ recipientsOf m"
    and "chunkerInv (messageStep s m) []"
proof -
  show "flatState (messageStep s m) = flatState s @ recipientsOf m"
  proof (cases "to m")
    case (Single t)
    then show ?thesis
      by (simp add: messageStep_def capChunk_def flatState_def recipientsOf_def)
  next
    case (Multiple ts)
    obtain s' p' where loop: "recipientLoop m ts (s, []) = (s', p')"
      by (cases "recipientLoop m ts (s, [])")
    from recipientLoop_flat [OF loop] have f: "flatState s' @ p' = flatState s @ ts" by simp
    from recipientLoop_inv [OF loop assms] have i: "chunkerInv s' p'" .
    from Multiple loop f i show ?thesis
      by (auto simp: messageStep_def capChunk_def flatState_def recipientsOf_def chunkerInv_def)
  qed
  show "chunkerInv (messageStep s m) []"
  proof (cases "to m")
    case (Single t)
    with assms show ?thesis
      using limit_pos
      by (auto simp: messageStep_def capChunk_def chunkerInv_def recipientsOf_def)
  next
    case (Multiple ts)
    obtain s' p' where loop: "recipientLoop m ts (s, []) = (s', p')"
      by (cases "recipientLoop m ts (s, [])")
    from recipientLoop_inv [OF loop assms] have i: "chunkerInv s' p'" .
    from Multiple loop i show ?thesis
      by (auto simp: messageStep_def capChunk_def chunkerInv_def)
  qed
qed


lemma foldl_messageStep:
  "chunkerInv s [] \<Longrightarrow>
     flatState (foldl messageStep s messages) = flatState s @ flatRecipients messages \<and>
     chunkerInv (foldl messageStep s messages) []"
proof (induction messages arbitrary: s)
  case Nil
  then show ?case by simp
next
  case (Cons m ms)
  from Cons.prems have "chunkerInv (messageStep s m) []"
    by (rule messageStep_flat(2))
  from Cons.IH [OF this] messageStep_flat(1) [OF Cons.prems, of m] show ?case
    by (simp add: flatRecipients_def)
qed

lemma initial_inv:
  "chunkerInv \<lparr>chunks = [], chunk = [], chunkMessagesCount = 0\<rparr> []"
  using limit_pos by (simp add: chunkerInv_def)

lemma chunkPushNotifications_flat:
  "concat (map flatRecipients (chunkPushNotifications messages)) = flatRecipients messages"
proof -
  let ?s = "foldl messageStep \<lparr>chunks = [], chunk = [], chunkMessagesCount = 0\<rparr> messages"
  from foldl_messageStep [OF initial_inv, of messages]
  have f: "flatState ?s = flatRecipients messages" and i: "chunkerInv ?s []"
    by (simp_all add: flatState_def)
  show ?thesis
  proof (cases "chunkMessagesCount ?s = 0")
    case True
    with i have "flatRecipients (chunk ?s) = []" by (simp add: chunkerInv_def)
    with True f show ?thesis by (simp add: chunkPushNotifications_def flatState_def Let_def)
  next
    case False
    with f show ?thesis by (simp add: chunkPushNotifications_def flatState_def Let_def)
  qed
qed

lemma actual_count_foldl:
  "foldl (\<lambda>total m.
            case to m of Multiple l \<Rightarrow> total + length l | Single _ \<Rightarrow> total + 1)
     a messages = a + length (flatRecipients messages)"
  by (induction messages arbitrary: a)
     (auto simp: flatRecipients_def recipientsOf_def split: recipients.splits)

lemma getActualMessageCount_flat:
  "getActualMessageCount messages = length (flatRecipients messages)"
  by (simp add: getActualMessageCount_def actual_count_foldl)

lemma getActualMessageCount_eq:
  "getActualMessageCount = (\<lambda>messages. length (flatRecipients messages))"
  by (rule ext) (rule getActualMessageCount_flat)

lemma chunkPushNotifications_bound:
  "list_all (\<lambda>b. length (flatRecipients b) \<le> PUSH_NOTIFICATION_CHUNK_LIMIT \<and> flatRecipients b \<noteq> [])
     (chunkPushNotifications messages)"
proof -
  let ?s = "foldl messageStep \<lparr>chunks = [], chunk = [], chunkMessagesCount = 0\<rparr> messages"
  from foldl_messageStep [OF initial_inv, of messages]
  have i: "chunkerInv ?s []" by simp
  then have closed: "list_all (\<lambda>b. length (flatRecipients b) = PUSH_NOTIFICATION_CHUNK_LIMIT) (chunks ?s)"
    by (simp add: chunkerInv_def)
  have "list_all (\<lambda>b. length (flatRecipients b) \<le> PUSH_NOTIFICATION_CHUNK_LIMIT \<and> flatRecipients b \<noteq> []) (chunks ?s)"
    using closed limit_pos by (auto simp: list_all_iff)
  moreover have "chunkMessagesCount ?s \<noteq> 0 \<Longrightarrow>
      length (flatRecipients (chunk ?s)) \<le> PUSH_NOTIFICATION_CHUNK_LIMIT \<and> flatRecipients (chunk ?s) \<noteq> []"
    using i by (auto simp: chunkerInv_def)
  ultimately show ?thesis
    by (simp add: chunkPushNotifications_def Let_def)
qed

lemma messageStep_empty_list:
  assumes "to m = Multiple []" and "chunkerInv s []"
  shows "messageStep s m = s"
  using assms by (simp add: messageStep_def capChunk_def chunkerInv_def)

lemma chunk_skip_empty:
  assumes "to m = Multiple []"
  shows "chunkPushNotifications (before @ m # after) = chunkPushNotifications (before @ after)"
proof -
  let ?s = "foldl messageStep \<lparr>chunks = [], chunk = [], chunkMessagesCount = 0\<rparr> before"
  from foldl_messageStep [OF initial_inv, of before] have "chunkerInv ?s []" by simp
  with assms have "messageStep ?s m = ?s" by (rule messageStep_empty_list)
  then show ?thesis by (simp add: chunkPushNotifications_def Let_def)
qed

lemma closedBatches_Nil_chunk:
  "closedBatches [] m segs = map (\<lambda>g. [fragment m g]) segs"
  by (simp add: closedBatches_def split: list.splits)

lemma recipientLoop_structure:
  "recipientLoop m rs (s, p) = (s', p') \<Longrightarrow>
   \<exists>segs. p @ rs = concat segs @ p' \<and> [] \<notin> set segs \<and>
     chunks s' = chunks s @ closedBatches (chunk s) m segs \<and>
     chunk s' = (if segs = [] then chunk s else [])"
proof (induction rs arbitrary: s p)
  case Nil
  then have "s' = s" "p' = p" by simp_all
  then have "p @ [] = concat [] @ p' \<and> [] \<notin> set ([] :: ExpoPushToken list list) \<and>
     chunks s' = chunks s @ closedBatches (chunk s) m [] \<and>
     chunk s' = (if ([] :: ExpoPushToken list list) = [] then chunk s else [])"
    by (simp add: closedBatches_def)
  then show ?case by blast
next
  case (Cons r rs)
  show ?case
  proof (cases "chunkMessagesCount s + 1 \<ge> PUSH_NOTIFICATION_CHUNK_LIMIT")
    case True
    let ?s1 = "\<lparr>chunks = chunks s @ [chunk s @ [m\<lparr>to := Multiple (p @ [r])\<rparr>]],
           chunk = [], chunkMessagesCount = 0\<rparr>"
    from True Cons.prems have "recipientLoop m rs (?s1, []) = (s', p')"
      by (simp add: Let_def)
    from Cons.IH [OF this] obtain segs where
      a: "[] @ rs = concat segs @ p'" and b: "[] \<notin> set segs" and
      c: "chunks s' = chunks ?s1 @ closedBatches (chunk ?s1) m segs" and
      d: "chunk s' = (if segs = [] then chunk ?s1 else [])"
      by blast
    let ?segs = "(p @ [r]) # segs"
    have "p @ r # rs = concat ?segs @ p'" using a by simp
    moreover have "[] \<notin> set ?segs" using b by simp
    moreover have "chunks s' = chunks s @ closedBatches (chunk s) m ?segs"
      using c by (simp add: closedBatches_Nil_chunk) (simp add: closedBatches_def fragment_def)
    moreover have "chunk s' = (if ?segs = [] then chunk s else [])"
      using d by simp
    ultimately show ?thesis by blast
  next
    case False
    let ?s2 = "s\<lparr>chunkMessagesCount := chunkMessagesCount s + 1\<rparr>"
    from False Cons.prems have "recipientLoop m rs (?s2, p @ [r]) = (s', p')"
      by (simp add: Let_def)
    from Cons.IH [OF this] obtain segs where
      "(p @ [r]) @ rs = concat segs @ p'" "[] \<notin> set segs"
      "chunks s' = chunks ?s2 @ closedBatches (chunk ?s2) m segs"
      "chunk s' = (if segs = [] then chunk ?s2 else [])"
      by blast
    then have "p @ r # rs = concat segs @ p' \<and> [] \<notin> set segs \<and>
      chunks s' = chunks s @ closedBatches (chunk s) m segs \<and>
      chunk s' = (if segs = [] then chunk s else [])"
      by simp
    then show ?thesis by blast
  qed
qed

lemma chunkPushNotifications_finish:
  "chunkPushNotifications messages =
     finish (foldl messageStep \<lparr>chunks = [], chunk = [], chunkMessagesCount = 0\<rparr> messages)"
  by (simp add: chunkPushNotifications_def finish_def Let_def)

lemma length_closedBatches [simp]:
  "length (closedBatches c m segs) = length segs"
  by (simp add: closedBatches_def split: list.splits)

lemma closedBatches_nth:
  "j < length segs \<Longrightarrow>
     \<exists>pre. closedBatches c m segs ! j = pre @ [fragment m (segs ! j)]"
  by (cases segs; cases j) (simp_all add: closedBatches_def)

lemma recipientsOf_fragment' [simp]: "recipientsOf (fragment m g) = g"
  by (simp add: fragment_def)

text \<open>What one message does to the chunker, when its recipient field is a list.\<close>

lemma messageStep_Multiple:
  assumes inv: "chunkerInv s []" and to: "to m = Multiple ts"
  shows "\<exists>segs p'. ts = concat segs @ p' \<and> [] \<notin> set segs \<and>
           length p' < PUSH_NOTIFICATION_CHUNK_LIMIT \<and>
           (\<forall>g\<in>set segs. length g \<le> PUSH_NOTIFICATION_CHUNK_LIMIT) \<and>
           openView (messageStep s m) =
             chunks s @ closedBatches (chunk s) m segs @
               [(if segs = [] then chunk s else []) @
                (if p' \<noteq> [] then [fragment m p'] else [])]"
proof -
  obtain s' p' where loop: "recipientLoop m ts (s, []) = (s', p')"
    by (cases "recipientLoop m ts (s, [])")
  from recipientLoop_inv [OF loop inv] have inv': "chunkerInv s' p'" .
  from recipientLoop_structure [OF loop] obtain segs where
    a: "ts = concat segs @ p'" and b: "[] \<notin> set segs" and
    c: "chunks s' = chunks s @ closedBatches (chunk s) m segs" and
    d: "chunk s' = (if segs = [] then chunk s else [])"
    by auto
  from inv' have small: "length p' < PUSH_NOTIFICATION_CHUNK_LIMIT"
    and count: "chunkMessagesCount s' < PUSH_NOTIFICATION_CHUNK_LIMIT"
    and full: "list_all (\<lambda>b. length (flatRecipients b) = PUSH_NOTIFICATION_CHUNK_LIMIT) (chunks s')"
    by (simp_all add: chunkerInv_def)
  have seg_le: "\<forall>g\<in>set segs. length g \<le> PUSH_NOTIFICATION_CHUNK_LIMIT"
  proof
    fix g assume "g \<in> set segs"
    then obtain j where j: "j < length segs" and g: "g = segs ! j"
      by (auto simp: in_set_conv_nth)
    from closedBatches_nth [OF j, of "chunk s" m] obtain pre where
      pre: "closedBatches (chunk s) m segs ! j = pre @ [fragment m g]"
      using g by auto
    from j have "closedBatches (chunk s) m segs ! j \<in> set (chunks s')"
      using c by (simp add: nth_mem)
    with full have "length (flatRecipients (closedBatches (chunk s) m segs ! j))
        = PUSH_NOTIFICATION_CHUNK_LIMIT"
      by (simp add: list_all_iff)
    with pre show "length g \<le> PUSH_NOTIFICATION_CHUNK_LIMIT" by simp
  qed
  have "openView (messageStep s m) =
          chunks s @ closedBatches (chunk s) m segs @
            [(if segs = [] then chunk s else []) @
             (if p' \<noteq> [] then [fragment m p'] else [])]"
    using to loop c d count
    by (simp add: messageStep_def capChunk_def openView_def fragment_def)
  with a b small seg_le show ?thesis by blast
qed

lemma messageStep_openView:
  assumes inv: "chunkerInv s []"
  shows "\<exists>ext more. openView (messageStep s m) = chunks s @ (chunk s @ ext) # more"
proof (cases "to m")
  case (Single t)
  then show ?thesis
    by (auto simp: messageStep_def capChunk_def openView_def)
next
  case (Multiple ts)
  from messageStep_Multiple [OF inv Multiple] obtain segs p' where
    v: "openView (messageStep s m) =
             chunks s @ closedBatches (chunk s) m segs @
               [(if segs = [] then chunk s else []) @
                (if p' \<noteq> [] then [fragment m p'] else [])]"
    by blast
  show ?thesis
  proof (cases segs)
    case Nil
    with v show ?thesis by (simp add: closedBatches_def)
  next
    case (Cons g gs)
    with v show ?thesis by (simp add: closedBatches_def)
  qed
qed

lemma messageStep_keeps:
  assumes inv: "chunkerInv s []" and k: "k < length (openView s)" and x: "x \<in> set (openView s ! k)"
  shows "k < length (openView (messageStep s m)) \<and> x \<in> set (openView (messageStep s m) ! k)"
proof -
  from messageStep_openView [OF inv, of m] obtain ext more where
    v: "openView (messageStep s m) = chunks s @ (chunk s @ ext) # more" by blast
  from k have "k < length (chunks s) \<or> k = length (chunks s)"
    by (auto simp: openView_def)
  then show ?thesis
  proof
    assume "k < length (chunks s)"
    with x v show ?thesis by (simp add: openView_def nth_append)
  next
    assume "k = length (chunks s)"
    with x v show ?thesis by (simp add: openView_def nth_append)
  qed
qed

lemma foldl_keeps:
  "chunkerInv s [] \<Longrightarrow> k < length (openView s) \<Longrightarrow> x \<in> set (openView s ! k) \<Longrightarrow>
     k < length (openView (foldl messageStep s messages)) \<and>
     x \<in> set (openView (foldl messageStep s messages) ! k)"
proof (induction messages arbitrary: s)
  case Nil
  then show ?case by simp
next
  case (Cons m ms)
  from messageStep_keeps [OF Cons.prems, of m] messageStep_flat(2) [OF Cons.prems(1), of m]
  show ?case using Cons.IH by simp
qed

lemma finish_keeps:
  assumes inv: "chunkerInv s []" and k: "k < length (openView s)"
    and x: "x \<in> set (openView s ! k)" and ne: "recipientsOf x \<noteq> []"
  shows "k < length (finish s) \<and> x \<in> set (finish s ! k)"
proof (cases "k < length (chunks s)")
  case True
  with x show ?thesis by (simp add: finish_def openView_def nth_append)
next
  case False
  with k have keq: "k = length (chunks s)" by (simp add: openView_def)
  with x have "x \<in> set (chunk s)" by (simp add: openView_def)
  with ne have "flatRecipients (chunk s) \<noteq> []"
    by (auto simp: flatRecipients_def)
  with inv have "chunkMessagesCount s \<noteq> 0" by (simp add: chunkerInv_def)
  with keq x show ?thesis by (simp add: finish_def openView_def)
qed

lemma long_message_fragments:
  assumes inv: "chunkerInv s []" and to: "to m = Multiple ts"
    and long: "PUSH_NOTIFICATION_CHUNK_LIMIT < length ts"
  shows "\<exists>segs. 2 \<le> length segs \<and> concat segs = ts \<and> [] \<notin> set segs \<and>
           (\<forall>g\<in>set segs. length g \<le> PUSH_NOTIFICATION_CHUNK_LIMIT) \<and>
           (\<forall>j<length segs.
              length (chunks s) + j < length (openView (messageStep s m)) \<and>
              fragment m (segs ! j)
                \<in> set (openView (messageStep s m) ! (length (chunks s) + j)))"
proof -
  from messageStep_Multiple [OF inv to] obtain segs p' where
    a: "ts = concat segs @ p'" and b: "[] \<notin> set segs" and
    small: "length p' < PUSH_NOTIFICATION_CHUNK_LIMIT" and
    seg_le: "\<forall>g\<in>set segs. length g \<le> PUSH_NOTIFICATION_CHUNK_LIMIT" and
    v: "openView (messageStep s m) =
             chunks s @ closedBatches (chunk s) m segs @
               [(if segs = [] then chunk s else []) @
                (if p' \<noteq> [] then [fragment m p'] else [])]"
    by blast
  let ?F = "segs @ (if p' \<noteq> [] then [p'] else [])"
  have two: "2 \<le> length ?F"
  proof (rule ccontr)
    assume "\<not> 2 \<le> length ?F"
    then have "(segs = [] \<and> True) \<or> (\<exists>g. segs = [g] \<and> p' = [])"
      by (cases segs; cases "tl segs") (auto split: if_splits)
    then show False
    proof
      assume "segs = [] \<and> True"
      with a small long show False by simp
    next
      assume "\<exists>g. segs = [g] \<and> p' = []"
      then obtain g where "segs = [g]" "p' = []" by blast
      with a seg_le long show False by simp
    qed
  qed
  have cat: "concat ?F = ts" using a by simp
  have ne: "[] \<notin> set ?F" using b by simp
  have le: "\<forall>g\<in>set ?F. length g \<le> PUSH_NOTIFICATION_CHUNK_LIMIT"
    using seg_le small by auto
  have idx: "\<forall>j<length ?F.
              length (chunks s) + j < length (openView (messageStep s m)) \<and>
              fragment m (?F ! j)
                \<in> set (openView (messageStep s m) ! (length (chunks s) + j))"
  proof (intro allI impI)
    fix j assume j: "j < length ?F"
    show "length (chunks s) + j < length (openView (messageStep s m)) \<and>
              fragment m (?F ! j)
                \<in> set (openView (messageStep s m) ! (length (chunks s) + j))"
    proof (cases "j < length segs")
      case True
      from closedBatches_nth [OF True, of "chunk s" m] obtain pre where
        "closedBatches (chunk s) m segs ! j = pre @ [fragment m (segs ! j)]"
        by blast
      with True v show ?thesis by (simp add: nth_append)
    next
      case False
      with j have "j = length segs" "p' \<noteq> []" by (auto split: if_splits)
      with v show ?thesis by (simp add: nth_append)
    qed
  qed
  from two cat ne le idx show ?thesis by blast
qed

lemma long_message_is_split:
  assumes to: "to m = Multiple ts"
    and long: "PUSH_NOTIFICATION_CHUNK_LIMIT < length ts"
  shows "\<exists>i segs. 2 \<le> length segs \<and> concat segs = ts \<and> [] \<notin> set segs \<and>
           (\<forall>j<length segs.
              i + j < length (chunkPushNotifications (before @ m # after)) \<and>
              m\<lparr>to := Multiple (segs ! j)\<rparr>
                \<in> set (chunkPushNotifications (before @ m # after) ! (i + j)))"
proof -
  let ?init = "\<lparr>chunks = [], chunk = [], chunkMessagesCount = 0\<rparr>"
  let ?s = "foldl messageStep ?init before"
  let ?s1 = "messageStep ?s m"
  let ?t = "foldl messageStep ?s1 after"
  from foldl_messageStep [OF initial_inv, of before] have inv: "chunkerInv ?s []" by simp
  then have inv1: "chunkerInv ?s1 []" by (rule messageStep_flat(2))
  from foldl_messageStep [OF inv1, of after] have invt: "chunkerInv ?t []" by simp
  have out: "chunkPushNotifications (before @ m # after) = finish ?t"
    by (simp add: chunkPushNotifications_finish)
  from long_message_fragments [OF inv to long] obtain segs where
    two: "2 \<le> length segs" and cat: "concat segs = ts" and ne: "[] \<notin> set segs" and
    idx: "\<forall>j<length segs.
              length (chunks ?s) + j < length (openView ?s1) \<and>
              fragment m (segs ! j) \<in> set (openView ?s1 ! (length (chunks ?s) + j))"
    by blast
  have "\<forall>j<length segs.
          length (chunks ?s) + j < length (finish ?t) \<and>
          m\<lparr>to := Multiple (segs ! j)\<rparr> \<in> set (finish ?t ! (length (chunks ?s) + j))"
  proof (intro allI impI)
    fix j assume j: "j < length segs"
    with idx have k: "length (chunks ?s) + j < length (openView ?s1)"
      and x: "fragment m (segs ! j) \<in> set (openView ?s1 ! (length (chunks ?s) + j))"
      by simp_all
    from foldl_keeps [OF inv1 k x, of after]
    have k': "length (chunks ?s) + j < length (openView ?t)"
      and x': "fragment m (segs ! j) \<in> set (openView ?t ! (length (chunks ?s) + j))"
      by simp_all
    from j ne have "segs ! j \<noteq> []" by (metis nth_mem)
    then have "recipientsOf (fragment m (segs ! j)) \<noteq> []" by simp
    from finish_keeps [OF invt k' x' this]
    show "length (chunks ?s) + j < length (finish ?t) \<and>
          m\<lparr>to := Multiple (segs ! j)\<rparr> \<in> set (finish ?t ! (length (chunks ?s) + j))"
      by (simp add: fragment_def)
  qed
  with two cat ne out show ?thesis by metis
qed

lemma sublist_of_segment:
  "g \<in> set segs \<Longrightarrow> sublist g (concat segs @ p)"
proof -
  assume "g \<in> set segs"
  then obtain a b where "segs = a @ g # b" by (auto simp: in_set_conv_decomp)
  then have "concat segs @ p = concat a @ g @ (concat b @ p)" by simp
  then show ?thesis unfolding sublist_def by blast
qed

lemma closedBatches_messages:
  "b \<in> set (closedBatches c m segs) \<Longrightarrow> x \<in> set b \<Longrightarrow>
     x \<in> set c \<or> (\<exists>g\<in>set segs. x = fragment m g)"
  by (cases segs) (auto simp: closedBatches_def)

lemma messageStep_origin:
  assumes inv: "chunkerInv s []" and x: "x \<in> viewMessages (messageStep s m)"
  shows "x \<in> viewMessages s \<or> isFragmentOf x m"
proof (cases "to m")
  case (Single t)
  with x show ?thesis
    by (auto simp: messageStep_def capChunk_def openView_def viewMessages_def isFragmentOf_def
        split: if_splits)
next
  case (Multiple ts)
  from messageStep_Multiple [OF inv Multiple] obtain segs p' where
    a: "ts = concat segs @ p'" and b: "[] \<notin> set segs" and
    v: "openView (messageStep s m) =
             chunks s @ closedBatches (chunk s) m segs @
               [(if segs = [] then chunk s else []) @
                (if p' \<noteq> [] then [fragment m p'] else [])]"
    by blast
  from x v consider (old) "x \<in> viewMessages s"
    | (closed) g where "g \<in> set segs" "x = fragment m g"
    | (rest) "p' \<noteq> []" "x = fragment m p'"
    by (auto simp: viewMessages_def openView_def dest: closedBatches_messages split: if_splits)
  then show ?thesis
  proof cases
    case old
    then show ?thesis by simp
  next
    case closed
    with a b have "g \<noteq> []" "sublist g ts" by (auto intro: sublist_of_segment)
    with closed Multiple show ?thesis by (auto simp: isFragmentOf_def fragment_def)
  next
    case rest
    from a have "sublist p' ts" unfolding sublist_def by (metis append_Nil2)
    with rest Multiple show ?thesis by (auto simp: isFragmentOf_def fragment_def)
  qed
qed

lemma foldl_origin:
  "chunkerInv s [] \<Longrightarrow> x \<in> viewMessages (foldl messageStep s messages) \<Longrightarrow>
     x \<in> viewMessages s \<or> (\<exists>m\<in>set messages. isFragmentOf x m)"
proof (induction messages arbitrary: s)
  case Nil
  then show ?case by simp
next
  case (Cons m ms)
  from Cons.prems(1) have "chunkerInv (messageStep s m) []" by (rule messageStep_flat(2))
  from Cons.IH [OF this] Cons.prems(2)
  have "x \<in> viewMessages (messageStep s m) \<or> (\<exists>m'\<in>set ms. isFragmentOf x m')" by simp
  with messageStep_origin [OF Cons.prems(1), of x m] show ?case by auto
qed

lemma chunkPushNotifications_origin:
  assumes "b \<in> set (chunkPushNotifications messages)" and "x \<in> set b"
  shows "\<exists>m\<in>set messages. isFragmentOf x m"
proof -
  let ?init = "\<lparr>chunks = [], chunk = [], chunkMessagesCount = 0\<rparr>"
  from assms have "x \<in> viewMessages (foldl messageStep ?init messages)"
    by (auto simp: chunkPushNotifications_def viewMessages_def openView_def Let_def split: if_splits)
  from foldl_origin [OF initial_inv this] show ?thesis
    by (simp add: viewMessages_def openView_def)
qed

subsection \<open>The claims about the chunker\<close>

text \<open>
  C1. For every list of messages, the recipient counts of the chunks
  \<^verbatim>\<open>chunkPushNotifications\<close> produces add up to the recipient count of the input (a list
  counts by its length, a single token as 1), and the recipients of the chunks, one
  chunk after the other, are the recipients of the input in their order.
\<close>

theorem chunk_conserves_recipients:
  "sum_list (map getActualMessageCount (chunkPushNotifications messages))
     = getActualMessageCount messages \<and>
   concat (map flatRecipients (chunkPushNotifications messages)) = flatRecipients messages"
proof -
  have "sum_list (map getActualMessageCount (chunkPushNotifications messages))
          = length (concat (map flatRecipients (chunkPushNotifications messages)))"
    by (simp add: getActualMessageCount_eq length_concat comp_def)
  then show ?thesis
    by (simp add: chunkPushNotifications_flat getActualMessageCount_flat)
qed

theorem chunk_conserves_recipients_witness:
  "sum_list (map getActualMessageCount
     (chunkPushNotifications
        [exampleMessage (Multiple (exampleTokens 101)), exampleMessage (Single ''a'')])) = 102 \<and>
   concat (map flatRecipients
     (chunkPushNotifications
        [exampleMessage (Multiple (exampleTokens 101)), exampleMessage (Single ''a'')]))
     = exampleTokens 101 @ [''a'']"
proof -
  let ?input = "[exampleMessage (Multiple (exampleTokens 101)), exampleMessage (Single ''a'')]"
  have n: "getActualMessageCount ?input = 102"
    by (simp add: getActualMessageCount_def exampleMessage_def exampleTokens_def)
  have f: "flatRecipients ?input = exampleTokens 101 @ [''a'']"
    by (simp add: flatRecipients_def recipientsOf_def exampleMessage_def)
  from chunk_conserves_recipients [of ?input] n f show ?thesis by simp
qed

text \<open>
  C4. No chunk \<^verbatim>\<open>chunkPushNotifications\<close> produces has more recipients than the chunk
  limit, which is 100. A message whose own recipient list is longer than the limit is
  split: its recipients are cut into two or more non-empty runs, in order and with
  none left out, and consecutive chunks of the output hold one copy of the message
  each, the \<open>j\<close>-th copy with the \<open>j\<close>-th run as its recipients.
\<close>

theorem batches_respect_limit:
  "PUSH_NOTIFICATION_CHUNK_LIMIT = 100 \<and>
   (\<forall>b\<in>set (chunkPushNotifications messages).
      getActualMessageCount b \<le> PUSH_NOTIFICATION_CHUNK_LIMIT) \<and>
   (\<forall>before m after ts.
      messages = before @ m # after \<and> to m = Multiple ts \<and>
      PUSH_NOTIFICATION_CHUNK_LIMIT < length ts \<longrightarrow>
      (\<exists>i segs. 2 \<le> length segs \<and> concat segs = ts \<and> [] \<notin> set segs \<and>
         (\<forall>j<length segs.
            i + j < length (chunkPushNotifications messages) \<and>
            m\<lparr>to := Multiple (segs ! j)\<rparr> \<in> set (chunkPushNotifications messages ! (i + j)))))"
proof (intro conjI allI impI)
  show "PUSH_NOTIFICATION_CHUNK_LIMIT = 100"
    by (simp add: PUSH_NOTIFICATION_CHUNK_LIMIT_def)
next
  from chunkPushNotifications_bound [of messages]
  show "\<forall>b\<in>set (chunkPushNotifications messages).
      getActualMessageCount b \<le> PUSH_NOTIFICATION_CHUNK_LIMIT"
    by (simp add: list_all_iff getActualMessageCount_flat)
next
  fix before m after ts
  assume "messages = before @ m # after \<and> to m = Multiple ts \<and>
      PUSH_NOTIFICATION_CHUNK_LIMIT < length ts"
  then show "\<exists>i segs. 2 \<le> length segs \<and> concat segs = ts \<and> [] \<notin> set segs \<and>
         (\<forall>j<length segs.
            i + j < length (chunkPushNotifications messages) \<and>
            m\<lparr>to := Multiple (segs ! j)\<rparr> \<in> set (chunkPushNotifications messages ! (i + j)))"
    using long_message_is_split [of m ts before after] by simp
qed

theorem batches_respect_limit_witness:
  "chunkPushNotifications
     [exampleMessage (Single ''a''), exampleMessage (Multiple (exampleTokens 101)),
      exampleMessage (Single ''z'')]
     = [[exampleMessage (Single ''a''), exampleMessage (Multiple (take 99 (exampleTokens 101)))],
        [exampleMessage (Multiple (drop 99 (exampleTokens 101))), exampleMessage (Single ''z'')]] \<and>
   getActualMessageCount
     [exampleMessage (Single ''a''), exampleMessage (Multiple (take 99 (exampleTokens 101)))]
     \<le> PUSH_NOTIFICATION_CHUNK_LIMIT \<and>
   getActualMessageCount
     [exampleMessage (Multiple (drop 99 (exampleTokens 101))), exampleMessage (Single ''z'')]
     \<le> PUSH_NOTIFICATION_CHUNK_LIMIT \<and>
   (\<exists>i segs. 2 \<le> length segs \<and> concat segs = exampleTokens 101 \<and> [] \<notin> set segs \<and>
      (\<forall>j<length segs.
         i + j < length (chunkPushNotifications
           [exampleMessage (Single ''a''), exampleMessage (Multiple (exampleTokens 101)),
            exampleMessage (Single ''z'')]) \<and>
         (exampleMessage (Multiple (exampleTokens 101)))\<lparr>to := Multiple (segs ! j)\<rparr>
           \<in> set (chunkPushNotifications
                [exampleMessage (Single ''a''), exampleMessage (Multiple (exampleTokens 101)),
                 exampleMessage (Single ''z'')] ! (i + j))))"
proof -
  let ?long = "exampleMessage (Multiple (exampleTokens 101))"
  let ?input = "[exampleMessage (Single ''a''), ?long, exampleMessage (Single ''z'')]"
  let ?b0 = "[exampleMessage (Single ''a''), exampleMessage (Multiple (take 99 (exampleTokens 101)))]"
  let ?b1 = "[exampleMessage (Multiple (drop 99 (exampleTokens 101))), exampleMessage (Single ''z'')]"
  note t = batches_respect_limit [of ?input]
  have out: "chunkPushNotifications ?input = [?b0, ?b1]"
    by code_simp
  from t have "\<forall>b\<in>set (chunkPushNotifications ?input).
      getActualMessageCount b \<le> PUSH_NOTIFICATION_CHUNK_LIMIT"
    by blast
  with out have small:
    "getActualMessageCount ?b0 \<le> PUSH_NOTIFICATION_CHUNK_LIMIT"
    "getActualMessageCount ?b1 \<le> PUSH_NOTIFICATION_CHUNK_LIMIT"
    by simp_all
  have long: "PUSH_NOTIFICATION_CHUNK_LIMIT < length (exampleTokens 101)"
    by (simp add: PUSH_NOTIFICATION_CHUNK_LIMIT_def exampleTokens_def)
  have "?input = [exampleMessage (Single ''a'')] @ ?long # [exampleMessage (Single ''z'')] \<and>
      to ?long = Multiple (exampleTokens 101) \<and>
      PUSH_NOTIFICATION_CHUNK_LIMIT < length (exampleTokens 101)"
    using long by (simp add: exampleMessage_def)
  with t have "\<exists>i segs. 2 \<le> length segs \<and> concat segs = exampleTokens 101 \<and> [] \<notin> set segs \<and>
      (\<forall>j<length segs.
         i + j < length (chunkPushNotifications ?input) \<and>
         ?long\<lparr>to := Multiple (segs ! j)\<rparr> \<in> set (chunkPushNotifications ?input ! (i + j)))"
    by blast
  with out small show ?thesis by simp
qed

text \<open>
  C7. Every message in every chunk \<^verbatim>\<open>chunkPushNotifications\<close> produces comes from a
  message \<open>m\<close> of the input and differs from it in the recipient field at most: it is
  \<open>m\<close> with the recipient field replaced, all other fields (\<^verbatim>\<open>data\<close>, \<^verbatim>\<open>title\<close>,
  \<^verbatim>\<open>subtitle\<close>, \<^verbatim>\<open>body\<close>, \<^verbatim>\<open>sound\<close>, \<^verbatim>\<open>ttl\<close>, \<^verbatim>\<open>expiration\<close>, \<^verbatim>\<open>priority\<close>, \<^verbatim>\<open>badge\<close>,
  \<^verbatim>\<open>channelId\<close>, \<^verbatim>\<open>categoryId\<close>, \<^verbatim>\<open>mutableContent\<close>) are those of \<open>m\<close>. When the recipient
  of \<open>m\<close> is a list, the fragment's recipient is a non-empty run of that list; so it is
  for every fragment of a message whose list is longer than the chunk limit.
\<close>

theorem fragments_differ_only_in_recipients:
  assumes "b \<in> set (chunkPushNotifications messages)" and "x \<in> set b"
  shows "\<exists>m\<in>set messages.
           x = m\<lparr>to := to x\<rparr> \<and>
           data x = data m \<and> title x = title m \<and> subtitle x = subtitle m \<and> body x = body m \<and>
           sound x = sound m \<and> ttl x = ttl m \<and> expiration x = expiration m \<and>
           priority x = priority m \<and> badge x = badge m \<and> channelId x = channelId m \<and>
           categoryId x = categoryId m \<and> mutableContent x = mutableContent m \<and>
           (case to m of
              Single t \<Rightarrow> to x = Single t
            | Multiple ts \<Rightarrow> \<exists>seg. seg \<noteq> [] \<and> sublist seg ts \<and> to x = Multiple seg)"
proof -
  from chunkPushNotifications_origin [OF assms] obtain m where
    m: "m \<in> set messages" and f: "isFragmentOf x m" by blast
  show ?thesis
  proof (cases "to m")
    case (Single t)
    with f have "x = m" by (simp add: isFragmentOf_def)
    with Single show ?thesis by (intro bexI [OF _ m]) simp
  next
    case (Multiple ts)
    with f obtain seg where "seg \<noteq> []" "sublist seg ts" "x = m\<lparr>to := Multiple seg\<rparr>"
      by (auto simp: isFragmentOf_def)
    with Multiple show ?thesis by (intro bexI [OF _ m]) auto
  qed
qed

theorem fragments_differ_only_in_recipients_witness:
  "[exampleMessage (Multiple (drop 100 (exampleTokens 101)))]
     \<in> set (chunkPushNotifications [exampleMessage (Multiple (exampleTokens 101))]) \<and>
   (\<exists>m\<in>set [exampleMessage (Multiple (exampleTokens 101))].
      exampleMessage (Multiple (drop 100 (exampleTokens 101)))
        = m\<lparr>to := Multiple (drop 100 (exampleTokens 101))\<rparr> \<and>
      title (exampleMessage (Multiple (drop 100 (exampleTokens 101)))) = title m \<and>
      body (exampleMessage (Multiple (drop 100 (exampleTokens 101)))) = body m \<and>
      data (exampleMessage (Multiple (drop 100 (exampleTokens 101)))) = data m)"
proof -
  let ?x = "exampleMessage (Multiple (drop 100 (exampleTokens 101)))"
  let ?input = "[exampleMessage (Multiple (exampleTokens 101))]"
  have out: "chunkPushNotifications ?input
      = [[exampleMessage (Multiple (take 100 (exampleTokens 101)))], [?x]]"
    by code_simp
  then have b: "[?x] \<in> set (chunkPushNotifications ?input)" by simp
  have x: "?x \<in> set [?x]" by simp
  have tox: "to ?x = Multiple (drop 100 (exampleTokens 101))"
    by (simp add: exampleMessage_def)
  from fragments_differ_only_in_recipients [OF b x] tox b show ?thesis
    by auto
qed

text \<open>
  C10. A message whose recipient field is the empty list leaves no trace in the output
  of \<^verbatim>\<open>chunkPushNotifications\<close>: the chunks are those of the input without it, and no
  message of any chunk has an empty recipient list. \<^verbatim>\<open>_getActualMessageCount\<close> counts
  it as 0, so the recipient counts of the chunks still add up to the count of the
  input.
\<close>

theorem empty_recipient_list_is_dropped:
  assumes "to m = Multiple []"
  shows "chunkPushNotifications (before @ m # after) = chunkPushNotifications (before @ after) \<and>
         (\<forall>b\<in>set (chunkPushNotifications (before @ m # after)). \<forall>x\<in>set b. recipientsOf x \<noteq> []) \<and>
         getActualMessageCount [m] = 0 \<and>
         getActualMessageCount (before @ m # after) = getActualMessageCount (before @ after) \<and>
         sum_list (map getActualMessageCount (chunkPushNotifications (before @ m # after)))
           = getActualMessageCount (before @ m # after)"
proof (intro conjI ballI)
  from assms show "chunkPushNotifications (before @ m # after)
      = chunkPushNotifications (before @ after)"
    by (rule chunk_skip_empty)
next
  fix b x
  assume "b \<in> set (chunkPushNotifications (before @ m # after))" and "x \<in> set b"
  from chunkPushNotifications_origin [OF this] obtain m' where "isFragmentOf x m'" by blast
  then show "recipientsOf x \<noteq> []"
    by (cases "to m'") (auto simp: isFragmentOf_def recipientsOf_def)
next
  from assms show "getActualMessageCount [m] = 0"
    by (simp add: getActualMessageCount_def)
next
  from assms show "getActualMessageCount (before @ m # after)
      = getActualMessageCount (before @ after)"
    by (simp add: getActualMessageCount_flat flatRecipients_def recipientsOf_def)
next
  have "sum_list (map getActualMessageCount (chunkPushNotifications (before @ m # after)))
          = length (concat (map flatRecipients (chunkPushNotifications (before @ m # after))))"
    by (simp add: getActualMessageCount_eq length_concat comp_def)
  then show "sum_list (map getActualMessageCount (chunkPushNotifications (before @ m # after)))
           = getActualMessageCount (before @ m # after)"
    by (simp add: chunkPushNotifications_flat getActualMessageCount_flat)
qed

theorem empty_recipient_list_is_dropped_witness:
  "chunkPushNotifications
     [exampleMessage (Single ''a''), exampleMessage (Multiple []), exampleMessage (Single ''b'')]
     = [[exampleMessage (Single ''a''), exampleMessage (Single ''b'')]] \<and>
   getActualMessageCount [exampleMessage (Multiple [])] = 0 \<and>
   getActualMessageCount
     [exampleMessage (Single ''a''), exampleMessage (Multiple []), exampleMessage (Single ''b'')] = 2 \<and>
   sum_list (map getActualMessageCount (chunkPushNotifications
     [exampleMessage (Single ''a''), exampleMessage (Multiple []), exampleMessage (Single ''b'')])) = 2"
proof -
  have e: "to (exampleMessage (Multiple [])) = Multiple []"
    by (simp add: exampleMessage_def)
  have out: "chunkPushNotifications [exampleMessage (Single ''a''), exampleMessage (Single ''b'')]
      = [[exampleMessage (Single ''a''), exampleMessage (Single ''b'')]]"
    by code_simp
  have n: "getActualMessageCount [exampleMessage (Single ''a''), exampleMessage (Single ''b'')] = 2"
    by (simp add: getActualMessageCount_def exampleMessage_def)
  from empty_recipient_list_is_dropped
         [OF e, of "[exampleMessage (Single ''a'')]" "[exampleMessage (Single ''b'')]"] out n
  show ?thesis by simp
qed

section \<open>Properties of the token predicate\<close>

lemma matchAnchored_Repeat:
  "matchAnchored i (Repeat a n # ps) s \<longleftrightarrow>
     n \<le> length s \<and> list_all (atomMatches i a) (take n s) \<and> matchAnchored i ps (drop n s)"
proof (induction n arbitrary: s)
  case 0
  show ?case by simp
next
  case (Suc n)
  show ?case
  proof (cases s)
    case Nil
    then show ?thesis by simp
  next
    case (Cons c cs)
    with Suc.IH [of cs] show ?thesis by auto
  qed
qed

lemma canonicalize_lower:
  assumes "c \<in> set asciiLower"
  shows "canonicalize True c \<in> set asciiUpper"
proof -
  have len: "length asciiLower = length asciiUpper"
    by (simp add: asciiLower_def asciiUpper_def)
  from assms map_of_zip_is_Some [OF len, of c] obtain u where
    u: "map_of (zip asciiLower asciiUpper) c = Some u" by blast
  then have "(c, u) \<in> set (zip asciiLower asciiUpper)" by (rule map_of_SomeD)
  then have "u \<in> set asciiUpper" by (rule set_zip_rightD)
  with u show ?thesis by (simp add: canonicalize_def)
qed

lemma canonicalize_other:
  assumes "c \<notin> set asciiLower"
  shows "canonicalize True c = c"
proof -
  have len: "length asciiLower = length asciiUpper"
    by (simp add: asciiLower_def asciiUpper_def)
  from assms map_of_zip_is_None [OF len, of c]
  have "map_of (zip asciiLower asciiUpper) c = None" by simp
  then show ?thesis by (simp add: canonicalize_def)
qed

lemma canonical_class:
  "map (canonicalize True) (atomChars ClassLowerOrDigit) = asciiUpper @ asciiDigits"
  by (simp add: atomChars_def canonicalize_def asciiLower_def asciiUpper_def asciiDigits_def)

lemma lower_not_upper: "c \<in> set asciiLower \<Longrightarrow> c \<notin> set asciiUpper \<and> c \<notin> set asciiDigits"
  by (auto simp: asciiLower_def asciiUpper_def asciiDigits_def)

lemma class_matches:
  "atomMatches True ClassLowerOrDigit c \<longleftrightarrow> isLetterOrDigit c"
proof (cases "c \<in> set asciiLower")
  case True
  from canonicalize_lower [OF True] True show ?thesis
    by (simp add: atomMatches_def canonical_class isLetterOrDigit_def)
next
  case False
  from canonicalize_other [OF False] False show ?thesis
    by (simp add: atomMatches_def canonical_class isLetterOrDigit_def)
qed

lemma hyphen_matches:
  "atomMatches True (Literal CHR ''-'') c \<longleftrightarrow> c = CHR ''-''"
proof -
  have h: "canonicalize True CHR ''-'' = CHR ''-''"
    by (rule canonicalize_other) (simp add: asciiLower_def)
  show ?thesis
  proof (cases "c \<in> set asciiLower")
    case True
    from canonicalize_lower [OF True] have "canonicalize True c \<noteq> CHR ''-''"
      by (auto simp: asciiUpper_def)
    moreover from True have "c \<noteq> CHR ''-''" by (auto simp: asciiLower_def)
    ultimately show ?thesis by (simp add: atomMatches_def atomChars_def h)
  next
    case False
    from canonicalize_other [OF False] show ?thesis
      by (simp add: atomMatches_def atomChars_def h)
  qed
qed

lemma split_group:
  "n \<le> length s \<and> list_all P (take n s) \<and> Q (drop n s) \<longleftrightarrow>
     (\<exists>g r. s = g @ r \<and> length g = n \<and> list_all P g \<and> Q r)"
proof
  assume l: "n \<le> length s \<and> list_all P (take n s) \<and> Q (drop n s)"
  then have "s = take n s @ drop n s \<and> length (take n s) = n \<and> list_all P (take n s) \<and> Q (drop n s)"
    by simp
  then show "\<exists>g r. s = g @ r \<and> length g = n \<and> list_all P g \<and> Q r" by blast
next
  assume "\<exists>g r. s = g @ r \<and> length g = n \<and> list_all P g \<and> Q r"
  then show "n \<le> length s \<and> list_all P (take n s) \<and> Q (drop n s)" by auto
qed

lemma split_hyphen:
  "Suc 0 \<le> length s \<and> list_all (\<lambda>c. c = h) (take (Suc 0) s) \<and> Q (drop (Suc 0) s) \<longleftrightarrow>
     (\<exists>r. s = h # r \<and> Q r)"
  by (cases s) auto

lemma match_group:
  "matchAnchored True (Repeat ClassLowerOrDigit n # ps) s \<longleftrightarrow>
     (\<exists>g r. s = g @ r \<and> length g = n \<and> list_all isLetterOrDigit g \<and> matchAnchored True ps r)"
proof -
  have cls: "atomMatches True ClassLowerOrDigit = isLetterOrDigit"
    by (rule ext) (rule class_matches)
  show ?thesis
    unfolding matchAnchored_Repeat cls
    by (rule split_group [where Q = "matchAnchored True ps"])
qed

lemma match_hyphen:
  "matchAnchored True (Repeat (Literal CHR ''-'') 1 # ps) s \<longleftrightarrow>
     (\<exists>r. s = CHR ''-'' # r \<and> matchAnchored True ps r)"
proof -
  have hyp: "atomMatches True (Literal CHR ''-'') = (\<lambda>c. c = CHR ''-'')"
    by (rule ext) (rule hyphen_matches)
  show ?thesis
    unfolding matchAnchored_Repeat hyp One_nat_def
    by (rule split_hyphen [where Q = "matchAnchored True ps"])
qed

lemma uuid_match_iff: "matchAnchored True uuidPattern s \<longleftrightarrow> uuidShaped s"
proof
  assume "matchAnchored True uuidPattern s"
  then have
    "\<exists>g1 r1. s = g1 @ r1 \<and> length g1 = 8 \<and> list_all isLetterOrDigit g1 \<and>
      (\<exists>r2. r1 = CHR ''-'' # r2 \<and>
        (\<exists>g2 r3. r2 = g2 @ r3 \<and> length g2 = 4 \<and> list_all isLetterOrDigit g2 \<and>
          (\<exists>r4. r3 = CHR ''-'' # r4 \<and>
            (\<exists>g3 r5. r4 = g3 @ r5 \<and> length g3 = 4 \<and> list_all isLetterOrDigit g3 \<and>
              (\<exists>r6. r5 = CHR ''-'' # r6 \<and>
                (\<exists>g4 r7. r6 = g4 @ r7 \<and> length g4 = 4 \<and> list_all isLetterOrDigit g4 \<and>
                  (\<exists>r8. r7 = CHR ''-'' # r8 \<and>
                    (\<exists>g5 r9. r8 = g5 @ r9 \<and> length g5 = 12 \<and> list_all isLetterOrDigit g5 \<and>
                       r9 = []))))))))"
    unfolding uuidPattern_def
    by (simp only: match_group match_hyphen matchAnchored.simps(1))
  then obtain g1 g2 g3 g4 g5 where
    s: "s = g1 @ CHR ''-'' # g2 @ CHR ''-'' # g3 @ CHR ''-'' # g4 @ CHR ''-'' # g5" and
    len: "length g1 = 8" "length g2 = 4" "length g3 = 4" "length g4 = 4" "length g5 = 12" and
    ok: "list_all isLetterOrDigit g1" "list_all isLetterOrDigit g2" "list_all isLetterOrDigit g3"
      "list_all isLetterOrDigit g4" "list_all isLetterOrDigit g5"
    by auto
  have "s = g1 @ ''-'' @ g2 @ ''-'' @ g3 @ ''-'' @ g4 @ ''-'' @ g5 \<and>
        length g1 = 8 \<and> length g2 = 4 \<and> length g3 = 4 \<and> length g4 = 4 \<and> length g5 = 12 \<and>
        list_all isLetterOrDigit (g1 @ g2 @ g3 @ g4 @ g5)"
    using s len ok by simp
  then show "uuidShaped s" unfolding uuidShaped_def by blast
next
  assume "uuidShaped s"
  then obtain g1 g2 g3 g4 g5 where
    s: "s = g1 @ ''-'' @ g2 @ ''-'' @ g3 @ ''-'' @ g4 @ ''-'' @ g5" and
    len: "length g1 = 8" "length g2 = 4" "length g3 = 4" "length g4 = 4" "length g5 = 12" and
    ok: "list_all isLetterOrDigit (g1 @ g2 @ g3 @ g4 @ g5)"
    unfolding uuidShaped_def by blast
  have m5: "matchAnchored True [Repeat ClassLowerOrDigit 12] g5"
    using len ok by (simp add: match_group)
  have m4: "matchAnchored True
      [Repeat ClassLowerOrDigit 4, Repeat (Literal CHR ''-'') 1, Repeat ClassLowerOrDigit 12]
      (g4 @ CHR ''-'' # g5)"
    unfolding match_group [of 4] match_hyphen using len ok m5 by auto
  have m3: "matchAnchored True
      [Repeat ClassLowerOrDigit 4, Repeat (Literal CHR ''-'') 1,
       Repeat ClassLowerOrDigit 4, Repeat (Literal CHR ''-'') 1, Repeat ClassLowerOrDigit 12]
      (g3 @ CHR ''-'' # g4 @ CHR ''-'' # g5)"
    unfolding match_group [of 4 "Repeat (Literal CHR ''-'') 1 # Repeat ClassLowerOrDigit 4 # _"]
      match_hyphen [of "Repeat ClassLowerOrDigit 4 # _"]
    using len ok m4 by auto
  have m2: "matchAnchored True
      [Repeat ClassLowerOrDigit 4, Repeat (Literal CHR ''-'') 1,
       Repeat ClassLowerOrDigit 4, Repeat (Literal CHR ''-'') 1,
       Repeat ClassLowerOrDigit 4, Repeat (Literal CHR ''-'') 1, Repeat ClassLowerOrDigit 12]
      (g2 @ CHR ''-'' # g3 @ CHR ''-'' # g4 @ CHR ''-'' # g5)"
    unfolding match_group [of 4 "Repeat (Literal CHR ''-'') 1 # Repeat ClassLowerOrDigit 4
        # Repeat (Literal CHR ''-'') 1 # Repeat ClassLowerOrDigit 4 # _"]
      match_hyphen [of "Repeat ClassLowerOrDigit 4 # Repeat (Literal CHR ''-'') 1
        # Repeat ClassLowerOrDigit 4 # _"]
    using len ok m3 by auto
  have "matchAnchored True uuidPattern
      (g1 @ CHR ''-'' # g2 @ CHR ''-'' # g3 @ CHR ''-'' # g4 @ CHR ''-'' # g5)"
    unfolding uuidPattern_def match_group [of 8] match_hyphen [of "Repeat ClassLowerOrDigit 4
        # Repeat (Literal CHR ''-'') 1 # Repeat ClassLowerOrDigit 4 # Repeat (Literal CHR ''-'') 1
        # Repeat ClassLowerOrDigit 4 # _"]
    using len ok m2 by auto
  with s show "matchAnchored True uuidPattern s" by simp
qed

text \<open>
  C8. \<^verbatim>\<open>isExpoPushToken\<close> is a function of its argument alone. It holds exactly of the
  strings that start with \<^verbatim>\<open>ExponentPushToken[\<close> or \<^verbatim>\<open>ExpoPushToken[\<close> and end with \<^verbatim>\<open>]\<close>,
  and of the UUID-shaped strings: groups of 8, 4, 4, 4 and 12 characters separated by
  hyphens, where the characters are those the class \<^verbatim>\<open>[a-z\d]\<close> accepts when case is
  ignored (the claim's hexadecimal-style characters: ASCII letters and digits). It is
  false of everything that is not a string.
\<close>

theorem isExpoPushToken_iff:
  "(isExpoPushToken token \<longleftrightarrow>
      (\<exists>s. token = Some (JStr s) \<and>
         (((prefix ''ExponentPushToken['' s \<or> prefix ''ExpoPushToken['' s) \<and> suffix '']'' s)
          \<or> uuidShaped s))) \<and>
   ((\<forall>s. token \<noteq> Some (JStr s)) \<longrightarrow> \<not> isExpoPushToken token)"
proof (cases token)
  case None
  then show ?thesis by (simp add: isExpoPushToken_def)
next
  case (Some j)
  then show ?thesis
    by (cases j) (simp_all add: isExpoPushToken_def uuid_match_iff)
qed

theorem isExpoPushToken_iff_witness:
  "isExpoPushToken (Some (JStr ''F5741A13-bcda-434B-A316-5DC0E6FFA94F'')) \<and>
   uuidShaped ''F5741A13-bcda-434B-A316-5DC0E6FFA94F'' \<and>
   isExpoPushToken (Some (JStr ''ExponentPushToken[xxxxxxxxxxxxxxxxxxxxxx]'')) \<and>
   \<not> uuidShaped ''F5741A13-bcda-434B-A316-5DC0E6FFA94'' \<and>
   \<not> isExpoPushToken (Some (JNum 5)) \<and>
   \<not> isExpoPushToken None"
proof -
  let ?u = "''F5741A13-bcda-434B-A316-5DC0E6FFA94F''"
  let ?v = "''F5741A13-bcda-434B-A316-5DC0E6FFA94''"
  have a: "isExpoPushToken (Some (JStr ?u))" by code_simp
  have b: "\<not> prefix ''ExponentPushToken['' ?u" "\<not> prefix ''ExpoPushToken['' ?u" by simp_all
  from isExpoPushToken_iff [of "Some (JStr ?u)"] a b have u: "uuidShaped ?u" by simp
  have c: "isExpoPushToken (Some (JStr ''ExponentPushToken[xxxxxxxxxxxxxxxxxxxxxx]''))"
    by code_simp
  have d: "\<not> isExpoPushToken (Some (JStr ?v))" by code_simp
  from isExpoPushToken_iff [of "Some (JStr ?v)"] d have v: "\<not> uuidShaped ?v" by simp
  from isExpoPushToken_iff [of "Some (JNum 5)"] have n: "\<not> isExpoPushToken (Some (JNum 5))"
    by simp
  from isExpoPushToken_iff [of None] have "\<not> isExpoPushToken None" by simp
  with a u c v n show ?thesis by simp
qed

text \<open>
  The class \<^verbatim>\<open>[a-z\d]\<close> is wider than the hexadecimal digits: a string of the UUID shape
  made of the letter \<^verbatim>\<open>z\<close> is a token.
\<close>

lemma letters_beyond_f_accepted:
  "isExpoPushToken (Some (JStr ''zzzzzzzz-zzzz-zzzz-zzzz-zzzzzzzzzzzz''))"
  by code_simp

section \<open>Properties of the response normalizer\<close>

lemma getProp_not_null: "v \<noteq> JNull \<Longrightarrow> getProp (Some v) k = Inr (ownProperty v k)"
  by (cases v) simp_all

lemma ownProperty_Some_not_null: "ownProperty v k = Some x \<Longrightarrow> v \<noteq> JNull"
  by (cases v) simp_all

lemma joinWith_map:
  assumes "\<forall>x\<in>set xs. f x = (if c x then Inr (g x) else Inl CannotConvertToPrimitive)"
  shows "joinWith sep (map f xs) =
           (if list_all c xs then Inr (joinStrings sep (map g xs))
            else Inl CannotConvertToPrimitive)"
  using assms by (induction xs rule: induct_list012) auto

lemma jsonToString_convertible:
  "jsonToString Number_toString j =
     (if convertible j then Inr (renderJson Number_toString j)
      else Inl CannotConvertToPrimitive)"
proof (induction j)
  case (JArr xs)
  then have "\<forall>x\<in>set xs.
      (if x = JNull then Inr [] else jsonToString Number_toString x) =
      (if convertible x then Inr (if x = JNull then [] else renderJson Number_toString x)
       else Inl CannotConvertToPrimitive)"
    by auto
  from joinWith_map [OF this] show ?case by simp
qed simp_all

lemma getErrorFromResultError_entry:
  "e \<noteq> JNull \<Longrightarrow> messageConverts e \<Longrightarrow>
     getErrorFromResultError Number_toString (Some e) = Inr (entryError Number_toString e)"
  by (auto simp: getErrorFromResultError_def getProp_not_null entryError_def Error_def Let_def
      messageConverts_def jsonToString_convertible split: option.splits)

lemma getErrorFromResultError_unconvertible:
  "e \<noteq> JNull \<Longrightarrow> \<not> messageConverts e \<Longrightarrow>
     getErrorFromResultError Number_toString (Some e) = Inl (TypeError CannotConvertToPrimitive)"
  by (auto simp: getErrorFromResultError_def getProp_not_null messageConverts_def
      jsonToString_convertible split: option.splits)

lemma mapErrors_entries:
  "JNull \<notin> set es \<Longrightarrow> \<forall>x\<in>set es. messageConverts x \<Longrightarrow>
     mapErrors Number_toString es = Inr (map (entryError Number_toString) es)"
  by (induction es) (auto simp: getErrorFromResultError_entry)

lemma truthy_not_null: "truthy (Some e) \<Longrightarrow> e \<noteq> JNull"
  by (cases e) simp_all

lemma getErrorFromResult_list:
  assumes errs: "ownProperty result ''errors'' = Some (JArr (e # rest))"
    and first: "truthy (Some e)" and others: "JNull \<notin> set rest"
    and conv: "\<forall>x\<in>set (e # rest). messageConverts x"
  shows "getErrorFromResult Number_toString response result =
           Inr (set_statusCode (status response)
                  (if rest = [] then entryError Number_toString e
                   else set_others (map (entryError Number_toString) rest)
                          (entryError Number_toString e)))"
proof -
  from errs have "result \<noteq> JNull" by (rule ownProperty_Some_not_null)
  then have p: "getProp (Some result) ''errors'' = Inr (Some (JArr (e # rest)))"
    using errs by (simp add: getProp_not_null)
  from first conv
  have e: "getErrorFromResultError Number_toString (Some e) = Inr (entryError Number_toString e)"
    by (intro getErrorFromResultError_entry truthy_not_null) simp_all
  from others conv
  have r: "mapErrors Number_toString rest = Inr (map (entryError Number_toString) rest)"
    by (intro mapErrors_entries) simp_all
  show ?thesis
    by (simp add: getErrorFromResult_def p first e r Let_def)
qed

lemma getErrorFromResult_unconvertible:
  assumes errs: "ownProperty result ''errors'' = Some (JArr (e # rest))"
    and first: "truthy (Some e)" and conv: "\<not> messageConverts e"
  shows "getErrorFromResult Number_toString response result
           = Inl (TypeError CannotConvertToPrimitive)"
proof -
  from errs have "result \<noteq> JNull" by (rule ownProperty_Some_not_null)
  then have p: "getProp (Some result) ''errors'' = Inr (Some (JArr (e # rest)))"
    using errs by (simp add: getProp_not_null)
  from first conv
  have e: "getErrorFromResultError Number_toString (Some e)
             = Inl (TypeError CannotConvertToPrimitive)"
    by (intro getErrorFromResultError_unconvertible truthy_not_null)
  show ?thesis
    by (simp add: getErrorFromResult_def p first e Let_def)
qed

text \<open>
  C5, as amended. For a response with status 200 whose body parses to a value with an
  \<^verbatim>\<open>errors\<close> list \<open>e # rest\<close>, where the first entry \<open>e\<close> is truthy (not \<^verbatim>\<open>null\<close>,
  \<^verbatim>\<open>false\<close>, \<^verbatim>\<open>0\<close> or the empty string), no other entry is \<^verbatim>\<open>null\<close>, and the message of
  every entry that has one converts to a string (it is not an object with a member
  named \<^verbatim>\<open>toString\<close>, nor a list that holds such an object), the request throws an
  error built from the first entry: its message (converted to a string), its code,
  its details and its stack when they are not \<^verbatim>\<open>null\<close>. The status code 200 is
  attached; when there are further entries, the errors built from them are attached as
  \<^verbatim>\<open>others\<close>, in the order of the list.
\<close>

theorem first_error_is_primary:
  assumes "status response = 200"
    and "JSON_parse (bodyText response) = Some result"
    and "ownProperty result ''errors'' = Some (JArr (e # rest))"
    and "truthy (Some e)"
    and "JNull \<notin> set rest"
    and "\<forall>x\<in>set (e # rest). messageConverts x"
  shows "\<exists>err. requestAsync JSON_parse Number_toString (Inr response) = Inl (Thrown err) \<and>
           message err =
             (case ownProperty e ''message'' of
                None \<Rightarrow> [] | Some m \<Rightarrow> renderJson Number_toString m) \<and>
           code err = ownProperty e ''code'' \<and>
           details err =
             (if notNullish (ownProperty e ''details'') then ownProperty e ''details'' else None) \<and>
           serverStack err =
             (if notNullish (ownProperty e ''stack'') then ownProperty e ''stack'' else None) \<and>
           others err =
             (if rest = [] then None else Some (map (entryError Number_toString) rest)) \<and>
           statusCode err = Some 200 \<and>
           errorText err = None \<and> errorData err = None \<and> data' err = None"
proof -
  from assms(3) have nn: "result \<noteq> JNull" by (rule ownProperty_Some_not_null)
  have p: "getProp (Some result) ''errors'' = Inr (Some (JArr (e # rest)))"
    using nn assms(3) by (simp add: getProp_not_null)
  let ?err = "set_statusCode 200
      (if rest = [] then entryError Number_toString e
       else set_others (map (entryError Number_toString) rest) (entryError Number_toString e))"
  from getErrorFromResult_list [OF assms(3,4,5,6), of Number_toString response] assms(1)
  have g: "getErrorFromResult Number_toString response result = Inr ?err" by simp
  have "requestAsync JSON_parse Number_toString (Inr response) = Inl (Thrown ?err)"
    using assms(1,2) p g by (simp add: requestAsync_def Let_def)
  moreover have "message ?err =
       (case ownProperty e ''message'' of
          None \<Rightarrow> [] | Some m \<Rightarrow> renderJson Number_toString m)"
    "code ?err = ownProperty e ''code''"
    "details ?err =
       (if notNullish (ownProperty e ''details'') then ownProperty e ''details'' else None)"
    "serverStack ?err =
       (if notNullish (ownProperty e ''stack'') then ownProperty e ''stack'' else None)"
    "others ?err = (if rest = [] then None else Some (map (entryError Number_toString) rest))"
    "statusCode ?err = Some 200"
    "errorText ?err = None" "errorData ?err = None" "data' ?err = None"
    by (simp_all add: entryError_def)
  ultimately show ?thesis by blast
qed

theorem first_error_is_primary_witness:
  \<open>\<exists>err. requestAsync exampleParse exampleNumberToString
       (Inr \<lparr>status = 200, bodyText = ''{"errors":[{"message":"slow down","code":"RATE"},{"message":"also","code":"Y","details":{"n":1}}]}''\<rparr>)
       = Inl (Thrown err) \<and>
     message err = ''slow down'' \<and> code err = Some (JStr ''RATE'') \<and>
     details err = None \<and> serverStack err = None \<and>
     others err = Some [ErrorObject ''also'' None None None (Some (JStr ''Y''))
                          (Some (JObj [(''n'', JNum 1)])) None None None] \<and>
     statusCode err = Some 200 \<and>
     errorText err = None \<and> errorData err = None \<and> data' err = None\<close>
proof -
  let ?body = \<open>''{"errors":[{"message":"slow down","code":"RATE"},{"message":"also","code":"Y","details":{"n":1}}]}''\<close>
  let ?e = "JObj [(''message'', JStr ''slow down''), (''code'', JStr ''RATE'')]"
  let ?f = "JObj [(''message'', JStr ''also''), (''code'', JStr ''Y''),
                  (''details'', JObj [(''n'', JNum 1)])]"
  let ?response = "\<lparr>status = 200, bodyText = ?body\<rparr>"
  have 1: "status ?response = 200" by simp
  have 2: "exampleParse (bodyText ?response) = Some (JObj [(''errors'', JArr [?e, ?f])])"
    by (simp add: exampleParse_def)
  have 3: "ownProperty (JObj [(''errors'', JArr [?e, ?f])]) ''errors'' = Some (JArr (?e # [?f]))"
    by simp
  have 4: "truthy (Some ?e)" by simp
  have 5: "JNull \<notin> set [?f]" by simp
  have 6: "\<forall>x\<in>set (?e # [?f]). messageConverts x" by (simp add: messageConverts_def)
  from first_error_is_primary
         [where response = "?response" and JSON_parse = exampleParse
            and Number_toString = exampleNumberToString and e = "?e" and rest = "[?f]",
          OF 1 2 3 4 5 6]
  show ?thesis
    by (simp add: entryError_def notNullish_def)
qed

text \<open>
  C5, as the claim states it, fails: a body whose \<^verbatim>\<open>errors\<close> list is not empty but
  starts with \<^verbatim>\<open>null\<close> runs into the guard of \<^verbatim>\<open>getErrorFromResult\<close>. The error thrown
  is not built from an entry and carries no status code.
\<close>

theorem errors_list_counterexample:
  \<open>exampleParse ''{"errors":[null]}'' = Some (JObj [(''errors'', JArr [JNull])]) \<and>
   requestAsync exampleParse exampleNumberToString (Inr \<lparr>status = 200, bodyText = ''{"errors":[null]}''\<rparr>)
     = Inl (Thrown (ErrorObject ''Expected at least one error from Expo''
                      None None None None None None None None)) \<and>
   statusCode (ErrorObject ''Expected at least one error from Expo''
                 None None None None None None None None) \<noteq> Some 200\<close>
  by (simp add: exampleParse_def requestAsync_def getErrorFromResult_def Error_def)

text \<open>
  What happens when the first entry of the list is truthy and its message does not
  convert to a string: the request ends in a TypeError, which carries no status code.
\<close>

theorem unconvertible_message_raises_type_error:
  assumes "status response = 200"
    and "JSON_parse (bodyText response) = Some result"
    and "ownProperty result ''errors'' = Some (JArr (e # rest))"
    and "truthy (Some e)"
    and "\<not> messageConverts e"
  shows "requestAsync JSON_parse Number_toString (Inr response)
           = Inl (TypeError CannotConvertToPrimitive)"
proof -
  from assms(3) have nn: "result \<noteq> JNull" by (rule ownProperty_Some_not_null)
  have p: "getProp (Some result) ''errors'' = Inr (Some (JArr (e # rest)))"
    using nn assms(3) by (simp add: getProp_not_null)
  from getErrorFromResult_unconvertible [OF assms(3,4,5)]
  have g: "getErrorFromResult Number_toString response result
             = Inl (TypeError CannotConvertToPrimitive)" .
  show ?thesis
    using assms(1,2) p g by (simp add: requestAsync_def Let_def)
qed

theorem unconvertible_message_raises_type_error_witness:
  \<open>requestAsync exampleParse exampleNumberToString
     (Inr \<lparr>status = 200, bodyText = ''{"errors":[{"message":{"toString":1},"code":"X"}]}''\<rparr>)
     = Inl (TypeError CannotConvertToPrimitive)\<close>
proof -
  let ?e = "JObj [(''message'', JObj [(''toString'', JNum 1)]), (''code'', JStr ''X'')]"
  let ?response =
    \<open>\<lparr>status = 200, bodyText = ''{"errors":[{"message":{"toString":1},"code":"X"}]}''\<rparr>\<close>
  have 1: "status ?response = 200" by simp
  have 2: "exampleParse (bodyText ?response) = Some (JObj [(''errors'', JArr [?e])])"
    by (simp add: exampleParse_def)
  have 3: "ownProperty (JObj [(''errors'', JArr [?e])]) ''errors'' = Some (JArr (?e # []))"
    by simp
  have 4: "truthy (Some ?e)" by simp
  have 5: "\<not> messageConverts ?e" by (simp add: messageConverts_def)
  from unconvertible_message_raises_type_error
         [where response = "?response" and JSON_parse = exampleParse
            and Number_toString = exampleNumberToString and e = "?e" and rest = "[]",
          OF 1 2 3 4 5]
  show ?thesis .
qed

text \<open>
  C6. A response whose status is not 200 and whose body is the JSON text \<^verbatim>\<open>null\<close>
  parses, and the parsed value has no \<^verbatim>\<open>errors\<close> list; the claim promises the error
  built from the text and the status. \<^verbatim>\<open>parseErrorResponseAsync\<close> reads
  \<^verbatim>\<open>result.errors\<close> of \<^verbatim>\<open>null\<close> instead, and the request ends in a TypeError.
\<close>

theorem null_body_raises_type_error:
  "exampleParse ''null'' = Some JNull \<and>
   parseErrorResponseAsync exampleParse exampleNumberToString \<lparr>status = 500, bodyText = ''null''\<rparr>
     = Inl (TypeError (CannotReadProperty ''errors'')) \<and>
   requestAsync exampleParse exampleNumberToString (Inr \<lparr>status = 500, bodyText = ''null''\<rparr>)
     = Inl (TypeError (CannotReadProperty ''errors''))"
  by (simp add: exampleParse_def requestAsync_def parseErrorResponseAsync_def Let_def)

theorem null_body_raises_type_error_witness:
  "\<forall>err. requestAsync exampleParse exampleNumberToString (Inr \<lparr>status = 500, bodyText = ''null''\<rparr>) \<noteq> Inl (Thrown err)"
  using null_body_raises_type_error by simp

text \<open>
  What holds of a response whose status is not 200, when the body does not parse or
  parses to a value other than \<^verbatim>\<open>null\<close> that lacks a non-empty \<^verbatim>\<open>errors\<close> list: the
  request throws the error built from the text and the status; when the body parsed,
  the parsed value is attached as \<^verbatim>\<open>errorData\<close>.
\<close>

theorem fallback_to_text_error:
  assumes "status response \<noteq> 200"
    and "JSON_parse (bodyText response) = None \<or>
         (\<exists>result. JSON_parse (bodyText response) = Some result \<and> result \<noteq> JNull \<and>
            (\<forall>e rest. ownProperty result ''errors'' \<noteq> Some (JArr (e # rest))))"
  shows "\<exists>err. requestAsync JSON_parse Number_toString (Inr response) = Inl (Thrown err) \<and>
           message err = ''Expo responded with an error with status code ''
                           @ Number_toString (int (status response)) @ '': ''
                           @ bodyText response \<and>
           statusCode err = Some (status response) \<and>
           errorText err = Some (bodyText response) \<and>
           errorData err = JSON_parse (bodyText response) \<and>
           code err = None \<and> details err = None \<and> serverStack err = None \<and>
           others err = None \<and> data' err = None"
proof -
  from assms(2) show ?thesis
  proof
    assume "JSON_parse (bodyText response) = None"
    with assms(1) show ?thesis
      by (simp add: requestAsync_def parseErrorResponseAsync_def getTextResponseErrorAsync_def
          Error_def Let_def)
  next
    assume "\<exists>result. JSON_parse (bodyText response) = Some result \<and> result \<noteq> JNull \<and>
            (\<forall>e rest. ownProperty result ''errors'' \<noteq> Some (JArr (e # rest)))"
    then obtain result where r: "JSON_parse (bodyText response) = Some result"
      and nn: "result \<noteq> JNull"
      and lacks: "\<forall>e rest. ownProperty result ''errors'' \<noteq> Some (JArr (e # rest))"
      by blast
    have "\<not> truthy (ownProperty result ''errors'') \<or> \<not> isArray (ownProperty result ''errors'')
        \<or> \<not> (case getProp (ownProperty result ''errors'') ''length'' of
                Inl t \<Rightarrow> False | Inr n \<Rightarrow> truthy n)"
    proof (cases "ownProperty result ''errors''")
      case None
      then show ?thesis by simp
    next
      case (Some v)
      show ?thesis
      proof (cases v)
        case (JArr xs)
        with Some lacks have "xs = []" by (cases xs) auto
        with Some JArr show ?thesis by simp
      qed (simp_all add: Some)
    qed
    with assms(1) r nn show ?thesis
      by (simp add: requestAsync_def parseErrorResponseAsync_def getTextResponseErrorAsync_def
          Error_def getProp_not_null Let_def)
  qed
qed

theorem fallback_to_text_error_witness:
  "\<exists>err. requestAsync exampleParse exampleNumberToString (Inr \<lparr>status = 502, bodyText = ''<html>Bad Gateway</html>''\<rparr>)
            = Inl (Thrown err) \<and>
     message err = ''Expo responded with an error with status code 502: <html>Bad Gateway</html>'' \<and>
     statusCode err = Some 502 \<and>
     errorText err = Some ''<html>Bad Gateway</html>'' \<and>
     errorData err = None \<and>
     code err = None \<and> details err = None \<and> serverStack err = None \<and>
     others err = None \<and> data' err = None"
proof -
  let ?response = "\<lparr>status = 502, bodyText = ''<html>Bad Gateway</html>''\<rparr>"
  have 1: "status ?response \<noteq> 200" by simp
  have p: "exampleParse (bodyText ?response) = None"
    by (simp add: exampleParse_def)
  then have 2: "exampleParse (bodyText ?response) = None \<or>
         (\<exists>result. exampleParse (bodyText ?response) = Some result \<and> result \<noteq> JNull \<and>
            (\<forall>e rest. ownProperty result ''errors'' \<noteq> Some (JArr (e # rest))))"
    by (rule disjI1)
  have n: "exampleNumberToString (int (status ?response)) = ''502''"
    by (simp add: exampleNumberToString_def decimal.simps digitChar_def)
  from fallback_to_text_error
         [where response = "?response" and JSON_parse = exampleParse
            and Number_toString = exampleNumberToString, OF 1 2]
    p n
  show ?thesis by simp
qed

section \<open>Properties of the dispatcher\<close>

lemma retryFrom_two:
  "retryFrom opts should work 1 (Suc (Suc 0)) =
     (case work 1 of
        Inr v \<Rightarrow> (Inr v, [])
      | Inl e1 \<Rightarrow>
          if should e1
          then (case work 2 of
                  Inr v \<Rightarrow> (Inr v, [minTimeout opts])
                | Inl e2 \<Rightarrow>
                    if should e2
                    then (work 3, [minTimeout opts, minTimeout opts * factor opts])
                    else (Inl e2, [minTimeout opts]))
          else (Inl e1, []))"
  by (simp add: Let_def numeral_2_eq_2 numeral_3_eq_3 split: sum.splits)

lemma promiseRetry_request:
  "promiseRetry work REQUEST_RETRY_OPTIONS shouldRetry =
     (case work 1 of
        Inr v \<Rightarrow> (Inr v, [])
      | Inl e1 \<Rightarrow>
          if shouldRetry e1
          then (case work 2 of
                  Inr v \<Rightarrow> (Inr v, [1000])
                | Inl e2 \<Rightarrow>
                    if shouldRetry e2 then (work 3, [1000, 2000]) else (Inl e2, [1000]))
          else (Inl e1, []))"
proof -
  have "retries REQUEST_RETRY_OPTIONS = Suc (Suc 0)" "minTimeout REQUEST_RETRY_OPTIONS = 1000"
    "factor REQUEST_RETRY_OPTIONS = 2"
    by (simp_all add: REQUEST_RETRY_OPTIONS_def)
  then show ?thesis
    unfolding promiseRetry_def by (simp only: retryFrom_two) (simp split: sum.splits)
qed

lemma send_delays:
  "snd (sendPushNotificationsAsync JSON_parse Number_toString fetch messages) =
     snd (promiseRetry (\<lambda>attempt. requestAsync JSON_parse Number_toString (fetch attempt))
            REQUEST_RETRY_OPTIONS shouldRetry)"
  by (cases "promiseRetry (\<lambda>attempt. requestAsync JSON_parse Number_toString (fetch attempt))
            REQUEST_RETRY_OPTIONS shouldRetry")
     (simp add: sendPushNotificationsAsync_def limitConcurrentRequests_def Let_def
        split: sum.splits)

lemma send_failure:
  assumes "promiseRetry (\<lambda>attempt. requestAsync JSON_parse Number_toString (fetch attempt))
             REQUEST_RETRY_OPTIONS shouldRetry = (Inl t, delays)"
  shows "sendPushNotificationsAsync JSON_parse Number_toString fetch messages = (Inl t, delays)"
  using assms
  by (simp add: sendPushNotificationsAsync_def limitConcurrentRequests_def Let_def)

text \<open>
  C3. The unit of work of \<^verbatim>\<open>sendPushNotificationsAsync\<close> is one run of
  \<^verbatim>\<open>requestAsync\<close>; \<open>work n\<close> is the outcome of its \<open>n\<close>-th run. The retry options are
  2 retries, factor 2, 1000ms to start with, and an error is retried exactly when it
  carries the status code 429. So the call waits 1000ms and then 2000ms at most: a
  failure that is not a 429 propagates at once, with no further run; a 429 is followed
  by another run until two retries are used up, and then the outcome of the third run
  is the outcome of the call, its error included.
\<close>

theorem retry_policy:
  fixes JSON_parse Number_toString fetch messages
  defines "work \<equiv> \<lambda>attempt. requestAsync JSON_parse Number_toString (fetch attempt)"
    and "send \<equiv> sendPushNotificationsAsync JSON_parse Number_toString fetch messages"
  shows "REQUEST_RETRY_OPTIONS = \<lparr>retries = 2, factor = 2, minTimeout = 1000\<rparr> \<and>
         (\<forall>e. shouldRetry (Thrown e) \<longleftrightarrow> statusCode e = Some 429) \<and>
         (\<forall>t. \<not> shouldRetry (TypeError t)) \<and>
         (snd send = [] \<or> snd send = [1000] \<or> snd send = [1000, 2000]) \<and>
         (\<forall>e1. work 1 = Inl e1 \<and> \<not> shouldRetry e1 \<longrightarrow> send = (Inl e1, [])) \<and>
         (\<forall>e1 e2. work 1 = Inl e1 \<and> shouldRetry e1 \<and> work 2 = Inl e2 \<and> \<not> shouldRetry e2
            \<longrightarrow> send = (Inl e2, [1000])) \<and>
         (\<forall>e1 e2 e3. work 1 = Inl e1 \<and> shouldRetry e1 \<and> work 2 = Inl e2 \<and> shouldRetry e2 \<and>
            work 3 = Inl e3 \<longrightarrow> send = (Inl e3, [1000, 2000])) \<and>
         (\<forall>v. work 1 = Inr v \<longrightarrow> snd send = []) \<and>
         (\<forall>e1 v. work 1 = Inl e1 \<and> shouldRetry e1 \<and> work 2 = Inr v \<longrightarrow> snd send = [1000]) \<and>
         (\<forall>e1 e2 v. work 1 = Inl e1 \<and> shouldRetry e1 \<and> work 2 = Inl e2 \<and> shouldRetry e2 \<and>
            work 3 = Inr v \<longrightarrow> snd send = [1000, 2000])"
proof -
  let ?retry = "promiseRetry work REQUEST_RETRY_OPTIONS shouldRetry"
  have delays: "snd send = snd ?retry"
    unfolding send_def work_def by (rule send_delays)
  have failure: "\<And>t ds. ?retry = (Inl t, ds) \<Longrightarrow> send = (Inl t, ds)"
    unfolding send_def work_def by (rule send_failure)
  have a: "REQUEST_RETRY_OPTIONS = \<lparr>retries = 2, factor = 2, minTimeout = 1000\<rparr>"
    by (simp add: REQUEST_RETRY_OPTIONS_def)
  have b: "\<forall>e. shouldRetry (Thrown e) \<longleftrightarrow> statusCode e = Some 429"
    by (simp add: shouldRetry_def)
  have c: "\<forall>t. \<not> shouldRetry (TypeError t)"
    by (simp add: shouldRetry_def)
  have d: "snd send = [] \<or> snd send = [1000] \<or> snd send = [1000, 2000]"
    unfolding delays promiseRetry_request by (simp split: sum.splits)
  have e: "\<forall>e1. work 1 = Inl e1 \<and> \<not> shouldRetry e1 \<longrightarrow> send = (Inl e1, [])"
  proof (intro allI impI, elim conjE)
    fix e1 assume "work 1 = Inl e1" "\<not> shouldRetry e1"
    then have "?retry = (Inl e1, [])" by (simp add: promiseRetry_request)
    then show "send = (Inl e1, [])" by (rule failure)
  qed
  have f: "\<forall>e1 e2. work 1 = Inl e1 \<and> shouldRetry e1 \<and> work 2 = Inl e2 \<and> \<not> shouldRetry e2
            \<longrightarrow> send = (Inl e2, [1000])"
  proof (intro allI impI, elim conjE)
    fix e1 e2
    assume "work 1 = Inl e1" "shouldRetry e1" "work 2 = Inl e2" "\<not> shouldRetry e2"
    then have "?retry = (Inl e2, [1000])" by (simp add: promiseRetry_request)
    then show "send = (Inl e2, [1000])" by (rule failure)
  qed
  have g: "\<forall>e1 e2 e3. work 1 = Inl e1 \<and> shouldRetry e1 \<and> work 2 = Inl e2 \<and> shouldRetry e2 \<and>
            work 3 = Inl e3 \<longrightarrow> send = (Inl e3, [1000, 2000])"
  proof (intro allI impI, elim conjE)
    fix e1 e2 e3
    assume "work 1 = Inl e1" "shouldRetry e1" "work 2 = Inl e2" "shouldRetry e2"
      "work 3 = Inl e3"
    then have "?retry = (Inl e3, [1000, 2000])" by (simp add: promiseRetry_request)
    then show "send = (Inl e3, [1000, 2000])" by (rule failure)
  qed
  have h: "\<forall>v. work 1 = Inr v \<longrightarrow> snd send = []"
    unfolding delays by (simp add: promiseRetry_request)
  have i: "\<forall>e1 v. work 1 = Inl e1 \<and> shouldRetry e1 \<and> work 2 = Inr v \<longrightarrow> snd send = [1000]"
    unfolding delays by (simp add: promiseRetry_request)
  have j: "\<forall>e1 e2 v. work 1 = Inl e1 \<and> shouldRetry e1 \<and> work 2 = Inl e2 \<and> shouldRetry e2 \<and>
            work 3 = Inr v \<longrightarrow> snd send = [1000, 2000]"
    unfolding delays by (simp add: promiseRetry_request)
  from a b c d e f g h i j show ?thesis by blast
qed

lemma example_429:
  \<open>requestAsync exampleParse exampleNumberToString (respond 429 ''{"errors":[{"message":"bad","code":"X"}]}'' n)
     = Inl (Thrown (ErrorObject ''bad'' (Some 429) None None (Some (JStr ''X'')) None None None None))\<close>
  by (simp add: respond_def requestAsync_def parseErrorResponseAsync_def exampleParse_def
      getErrorFromResult_def getErrorFromResultError_def Error_def notNullish_def Let_def)

lemma example_502:
  "requestAsync exampleParse exampleNumberToString (respond 502 ''<html>Bad Gateway</html>'' n)
     = Inl (Thrown (ErrorObject
         ''Expo responded with an error with status code 502: <html>Bad Gateway</html>''
         (Some 502) (Some ''<html>Bad Gateway</html>'') None None None None None None))"
  by (simp add: respond_def requestAsync_def parseErrorResponseAsync_def exampleParse_def
      getTextResponseErrorAsync_def Error_def Let_def exampleNumberToString_def decimal.simps
      digitChar_def)

theorem retry_policy_witness:
  \<open>sendPushNotificationsAsync exampleParse exampleNumberToString
      (respond 429 ''{"errors":[{"message":"bad","code":"X"}]}'') [exampleMessage (Single ''a'')]
     = (Inl (Thrown (ErrorObject ''bad'' (Some 429) None None (Some (JStr ''X'')) None None None None)),
        [1000, 2000]) \<and>
   sendPushNotificationsAsync exampleParse exampleNumberToString
      (respond 502 ''<html>Bad Gateway</html>'') [exampleMessage (Single ''a'')]
     = (Inl (Thrown (ErrorObject
         ''Expo responded with an error with status code 502: <html>Bad Gateway</html>''
         (Some 502) (Some ''<html>Bad Gateway</html>'') None None None None None None)),
        []) \<and>
   sendPushNotificationsAsync exampleParse exampleNumberToString
      (\<lambda>attempt. Inl (TypeError FetchFailed)) [exampleMessage (Single ''a'')]
     = (Inl (TypeError FetchFailed), [])\<close>
proof -
  let ?e = "Thrown (ErrorObject ''bad'' (Some 429) None None (Some (JStr ''X'')) None None None None)"
  let ?t = "Thrown (ErrorObject
         ''Expo responded with an error with status code 502: <html>Bad Gateway</html>''
         (Some 502) (Some ''<html>Bad Gateway</html>'') None None None None None None)"
  have r: "shouldRetry ?e" and n: "\<not> shouldRetry ?t"
    by (simp_all add: shouldRetry_def)
  from retry_policy
         [of exampleParse exampleNumberToString \<open>respond 429 ''{"errors":[{"message":"bad","code":"X"}]}''\<close>
             "[exampleMessage (Single ''a'')]"]
  have "\<forall>e1 e2 e3.
      requestAsync exampleParse exampleNumberToString (respond 429 ''{\"errors\":[{\"message\":\"bad\",\"code\":\"X\"}]}'' 1) = Inl e1 \<and>
      shouldRetry e1 \<and>
      requestAsync exampleParse exampleNumberToString (respond 429 ''{\"errors\":[{\"message\":\"bad\",\"code\":\"X\"}]}'' 2) = Inl e2 \<and>
      shouldRetry e2 \<and>
      requestAsync exampleParse exampleNumberToString (respond 429 ''{\"errors\":[{\"message\":\"bad\",\"code\":\"X\"}]}'' 3) = Inl e3 \<longrightarrow>
      sendPushNotificationsAsync exampleParse exampleNumberToString
        (respond 429 ''{\"errors\":[{\"message\":\"bad\",\"code\":\"X\"}]}'') [exampleMessage (Single ''a'')]
        = (Inl e3, [1000, 2000])"
    by blast
  with example_429 r have first: "sendPushNotificationsAsync exampleParse exampleNumberToString
        (respond 429 ''{\"errors\":[{\"message\":\"bad\",\"code\":\"X\"}]}'') [exampleMessage (Single ''a'')]
        = (Inl ?e, [1000, 2000])"
    by blast
  from retry_policy
         [of exampleParse exampleNumberToString "respond 502 ''<html>Bad Gateway</html>''"
             "[exampleMessage (Single ''a'')]"]
  have "\<forall>e1. requestAsync exampleParse exampleNumberToString (respond 502 ''<html>Bad Gateway</html>'' 1) = Inl e1 \<and>
      \<not> shouldRetry e1 \<longrightarrow>
      sendPushNotificationsAsync exampleParse exampleNumberToString
        (respond 502 ''<html>Bad Gateway</html>'') [exampleMessage (Single ''a'')] = (Inl e1, [])"
    by blast
  with example_502 n have second: "sendPushNotificationsAsync exampleParse exampleNumberToString
        (respond 502 ''<html>Bad Gateway</html>'') [exampleMessage (Single ''a'')] = (Inl ?t, [])"
    by blast
  from retry_policy
         [of exampleParse exampleNumberToString "\<lambda>attempt. Inl (TypeError FetchFailed)"
             "[exampleMessage (Single ''a'')]"]
  have "\<not> shouldRetry (TypeError FetchFailed)"
    and "\<forall>e1. requestAsync exampleParse exampleNumberToString (Inl (TypeError FetchFailed)) = Inl e1 \<and>
      \<not> shouldRetry e1 \<longrightarrow>
      sendPushNotificationsAsync exampleParse exampleNumberToString
        (\<lambda>attempt. Inl (TypeError FetchFailed)) [exampleMessage (Single ''a'')] = (Inl e1, [])"
    by blast+
  moreover have "requestAsync exampleParse exampleNumberToString (Inl (TypeError FetchFailed)) = Inl (TypeError FetchFailed)"
    by (simp add: requestAsync_def)
  ultimately have "sendPushNotificationsAsync exampleParse exampleNumberToString
        (\<lambda>attempt. Inl (TypeError FetchFailed)) [exampleMessage (Single ''a'')]
        = (Inl (TypeError FetchFailed), [])"
    by blast
  with first second show ?thesis by simp
qed

text \<open>
  C2. A response with status 200 and the body \<^verbatim>\<open>{}\<close> has no \<^verbatim>\<open>errors\<close> and no \<^verbatim>\<open>data\<close>:
  the payload is \<^verbatim>\<open>undefined\<close>, which is not a list, and the claim promises the
  count-mismatch error carrying the payload. Building the message of that error reads
  \<^verbatim>\<open>data.length\<close>, and the call ends in a TypeError instead.
\<close>

theorem undefined_payload_raises_type_error:
  "exampleParse ''{}'' = Some (JObj []) \<and>
   requestAsync exampleParse exampleNumberToString (respond 200 ''{}'' 1) = Inr None \<and>
   sendPushNotificationsAsync exampleParse exampleNumberToString (respond 200 ''{}'') [exampleMessage (Single ''a'')]
     = (Inl (TypeError (CannotReadProperty ''length'')), [])"
proof -
  have p: "exampleParse ''{}'' = Some (JObj [])" by (simp add: exampleParse_def)
  have w: "\<And>n. requestAsync exampleParse exampleNumberToString (respond 200 ''{}'' n) = Inr None"
    by (simp add: respond_def requestAsync_def p Let_def)
  have "promiseRetry (\<lambda>attempt. requestAsync exampleParse exampleNumberToString (respond 200 ''{}'' attempt))
          REQUEST_RETRY_OPTIONS shouldRetry = (Inr None, [])"
    by (simp add: promiseRetry_request w)
  then have "sendPushNotificationsAsync exampleParse exampleNumberToString (respond 200 ''{}'')
      [exampleMessage (Single ''a'')] = (Inl (TypeError (CannotReadProperty ''length'')), [])"
    by (simp add: sendPushNotificationsAsync_def limitConcurrentRequests_def Let_def)
  with p w show ?thesis by simp
qed

theorem undefined_payload_raises_type_error_witness:
  "\<forall>err. fst (sendPushNotificationsAsync exampleParse exampleNumberToString (respond 200 ''{}'')
                [exampleMessage (Single ''a'')]) \<noteq> Inl (Thrown err)"
  using undefined_payload_raises_type_error by simp

text \<open>
  What the check of \<^verbatim>\<open>sendPushNotificationsAsync\<close> does with the payload the request
  comes back with, after the delays the retries took: a list of the expected length is
  returned as it is, and no other payload is ever returned; any other payload that is not
  \<^verbatim>\<open>undefined\<close> or \<^verbatim>\<open>null\<close>, and whose \<^verbatim>\<open>length\<close> converts to a string, gives the
  count-mismatch error, which carries the payload; a \<^verbatim>\<open>length\<close> that does not convert,
  and the payloads \<^verbatim>\<open>undefined\<close> and \<^verbatim>\<open>null\<close>, give a TypeError.
\<close>

theorem send_checks_ticket_count:
  assumes "promiseRetry (\<lambda>attempt. requestAsync JSON_parse Number_toString (fetch attempt))
             REQUEST_RETRY_OPTIONS shouldRetry = (Inr payload, delays)"
  shows "(\<forall>tickets. payload = Some (JArr tickets) \<and> length tickets = getActualMessageCount messages
            \<longrightarrow> sendPushNotificationsAsync JSON_parse Number_toString fetch messages
                  = (Inr payload, delays)) \<and>
         (\<forall>v. fst (sendPushNotificationsAsync JSON_parse Number_toString fetch messages) = Inr v
            \<longrightarrow> v = payload \<and>
                (\<exists>tickets. payload = Some (JArr tickets) \<and>
                   length tickets = getActualMessageCount messages)) \<and>
         (notNullish payload \<and>
          (\<forall>tickets. payload = Some (JArr tickets)
             \<longrightarrow> length tickets \<noteq> getActualMessageCount messages) \<and>
          (\<forall>l. ownProperty (the payload) ''length'' = Some l \<longrightarrow> convertible l)
            \<longrightarrow> (\<exists>err. sendPushNotificationsAsync JSON_parse Number_toString fetch messages
                         = (Inl (Thrown err), delays) \<and>
                       data' err = payload \<and>
                       message err =
                         ''Expected Expo to respond with ''
                           @ Number_toString (int (getActualMessageCount messages)) @ '' ''
                           @ (if getActualMessageCount messages = 1 then ''ticket'' else ''tickets'')
                           @ '' but got ''
                           @ (case ownProperty (the payload) ''length'' of
                                None \<Rightarrow> ''undefined''
                              | Some l \<Rightarrow> renderJson Number_toString l))) \<and>
         (notNullish payload \<and>
          (\<exists>l. ownProperty (the payload) ''length'' = Some l \<and> \<not> convertible l)
            \<longrightarrow> sendPushNotificationsAsync JSON_parse Number_toString fetch messages
                  = (Inl (TypeError CannotConvertToPrimitive), delays)) \<and>
         (\<not> notNullish payload
            \<longrightarrow> sendPushNotificationsAsync JSON_parse Number_toString fetch messages
                  = (Inl (TypeError (CannotReadProperty ''length'')), delays))"
proof (cases payload)
  case None
  with assms show ?thesis
    by (simp add: sendPushNotificationsAsync_def limitConcurrentRequests_def Let_def
        notNullish_def)
next
  case (Some j)
  show ?thesis
  proof (cases j)
    case (JArr tickets)
    with Some assms show ?thesis
      by (auto simp: sendPushNotificationsAsync_def limitConcurrentRequests_def Let_def
          notNullish_def Error_def ToString_def)
  next
    case (JObj kvs)
    with Some assms show ?thesis
      by (auto simp: sendPushNotificationsAsync_def limitConcurrentRequests_def Let_def
          notNullish_def Error_def ToString_def jsonToString_convertible
          split: option.splits)
  qed (use Some assms in \<open>simp_all add: sendPushNotificationsAsync_def
        limitConcurrentRequests_def Let_def notNullish_def Error_def ToString_def\<close>)
qed

lemma example_data:
  \<open>requestAsync exampleParse exampleNumberToString
      (respond 200 ''{"data":[{"status":"ok","id":"r1"}]}'' n)
     = Inr (Some (JArr [JObj [(''status'', JStr ''ok''), (''id'', JStr ''r1'')]]))\<close>
  by (simp add: respond_def requestAsync_def exampleParse_def Let_def)

theorem send_checks_ticket_count_witness:
  \<open>sendPushNotificationsAsync exampleParse exampleNumberToString
      (respond 200 ''{"data":[{"status":"ok","id":"r1"}]}'') [exampleMessage (Single ''a'')]
     = (Inr (Some (JArr [JObj [(''status'', JStr ''ok''), (''id'', JStr ''r1'')]])), []) \<and>
   (\<exists>err. sendPushNotificationsAsync exampleParse exampleNumberToString
      (respond 200 ''{"data":[{"status":"ok","id":"r1"}]}'')
      [exampleMessage (Multiple [''a'', ''b'', ''c''])]
        = (Inl (Thrown err), []) \<and>
      data' err = Some (JArr [JObj [(''status'', JStr ''ok''), (''id'', JStr ''r1'')]]) \<and>
      message err = ''Expected Expo to respond with 3 tickets but got 1'')\<close>
proof -
  let ?fetch = \<open>respond 200 ''{"data":[{"status":"ok","id":"r1"}]}''\<close>
  let ?payload = "Some (JArr [JObj [(''status'', JStr ''ok''), (''id'', JStr ''r1'')]])"
  let ?pr = exampleNumberToString
  have r: "promiseRetry (\<lambda>attempt. requestAsync exampleParse ?pr (?fetch attempt))
             REQUEST_RETRY_OPTIONS shouldRetry = (Inr ?payload, [])"
    by (simp add: promiseRetry_request example_data)
  have one: "getActualMessageCount [exampleMessage (Single ''a'')] = 1"
    by (simp add: getActualMessageCount_def exampleMessage_def)
  have three: "getActualMessageCount [exampleMessage (Multiple [''a'', ''b'', ''c''])] = 3"
    by (simp add: getActualMessageCount_def exampleMessage_def)
  let ?ticket = "JObj [(''status'', JStr ''ok''), (''id'', JStr ''r1'')]"
  from send_checks_ticket_count [OF r, of "[exampleMessage (Single ''a'')]"]
  have "?payload = Some (JArr [?ticket]) \<and>
        length [?ticket] = getActualMessageCount [exampleMessage (Single ''a'')]
        \<longrightarrow> sendPushNotificationsAsync exampleParse ?pr ?fetch [exampleMessage (Single ''a'')]
              = (Inr ?payload, [])"
    by blast
  with one have a: "sendPushNotificationsAsync exampleParse ?pr ?fetch
      [exampleMessage (Single ''a'')] = (Inr ?payload, [])"
    by simp
  let ?three = "[exampleMessage (Multiple [''a'', ''b'', ''c''])]"
  let ?msg = "''Expected Expo to respond with ''
                 @ ?pr (int (getActualMessageCount ?three)) @ '' ''
                 @ (if getActualMessageCount ?three = 1 then ''ticket'' else ''tickets'')
                 @ '' but got ''
                 @ (case ownProperty (the ?payload) ''length'' of
                      None \<Rightarrow> ''undefined'' | Some l \<Rightarrow> renderJson ?pr l)"
  have pre: "notNullish ?payload \<and>
      (\<forall>tickets. ?payload = Some (JArr tickets) \<longrightarrow> length tickets \<noteq> getActualMessageCount ?three) \<and>
      (\<forall>l. ownProperty (the ?payload) ''length'' = Some l \<longrightarrow> convertible l)"
    by (simp add: notNullish_def three)
  from send_checks_ticket_count [OF r, of ?three]
  have "notNullish ?payload \<and>
      (\<forall>tickets. ?payload = Some (JArr tickets) \<longrightarrow> length tickets \<noteq> getActualMessageCount ?three) \<and>
      (\<forall>l. ownProperty (the ?payload) ''length'' = Some l \<longrightarrow> convertible l)
      \<longrightarrow> (\<exists>err. sendPushNotificationsAsync exampleParse ?pr ?fetch ?three = (Inl (Thrown err), []) \<and>
             data' err = ?payload \<and> message err = ?msg)"
    by blast
  with pre have "\<exists>err. sendPushNotificationsAsync exampleParse ?pr ?fetch ?three
        = (Inl (Thrown err), []) \<and> data' err = ?payload \<and> message err = ?msg"
    by (rule rev_mp)
  moreover have "?msg = ''Expected Expo to respond with 3 tickets but got 1''"
    by (simp add: three exampleNumberToString_def decimal.simps digitChar_def)
  ultimately have b: "\<exists>err. sendPushNotificationsAsync exampleParse ?pr ?fetch ?three
        = (Inl (Thrown err), []) \<and>
      data' err = ?payload \<and>
      message err = ''Expected Expo to respond with 3 tickets but got 1''"
    by simp
  from a b show ?thesis by blast
qed

section \<open>Properties of the concurrency limiter\<close>

lemma newLimiter_inv: "limiterInv (newLimiter opt)"
  by (simp add: limiterInv_def newLimiter_def)

lemma admit_concurrency [simp]: "concurrency (admit s) = concurrency s"
  by (simp add: admit_def split: list.splits)

lemma admit_inFlight [simp]: "inFlight (admit s) = inFlight s"
  by (simp add: admit_def split: list.splits)

lemma admit_submitted [simp]: "submitted (admit s) = submitted s"
  by (simp add: admit_def split: list.splits)

lemma step_concurrency: "step s e = Some s' \<Longrightarrow> concurrency s' = concurrency s"
  by (cases e) (auto split: if_splits)

lemma submit_inv:
  assumes "limiterInv s" and "u \<notin> set (submitted s)"
  shows "limiterInv (admit (s\<lparr>queue := queue s @ [u], submitted := submitted s @ [u]\<rparr>))"
proof (cases "queue s")
  case Nil
  with assms show ?thesis
    by (auto simp: limiterInv_def admit_def)
next
  case (Cons v rest)
  with assms show ?thesis
    by (auto simp: limiterInv_def admit_def)
qed

lemma settle_inv:
  assumes "limiterInv s" and "u \<in> set (active s)" and "u \<notin> set (inFlight s)"
  shows "limiterInv (admit (s\<lparr>active := removeAll u (active s)\<rparr>))"
proof -
  from assms have len: "length (removeAll u (active s)) < length (active s)"
    by (simp add: length_removeAll_less)
  from assms have d: "distinct (removeAll u (active s))"
    by (simp add: limiterInv_def distinct_removeAll)
  show ?thesis
  proof (cases "queue s")
    case Nil
    with assms len d show ?thesis
      by (auto simp: limiterInv_def admit_def)
  next
    case (Cons v rest)
    with assms have full: "length (active s) = concurrency s"
      by (simp add: limiterInv_def)
    from assms Cons have fresh: "v \<notin> set (began s)"
      by (auto simp: limiterInv_def dest: arg_cong [where f = distinct])
    from assms(1) d len have one: "length (removeAll u (active s)) = concurrency s - 1"
      using full assms(2)
      by (simp add: limiterInv_def distinct_remove1_removeAll [symmetric] length_remove1)
    from assms Cons len d full fresh one show ?thesis
      by (auto simp: limiterInv_def admit_def)
  qed
qed

lemma step_inv: "limiterInv s \<Longrightarrow> step s e = Some s' \<Longrightarrow> limiterInv s'"
proof (cases e)
  case (Submit u)
  assume "limiterInv s" "step s e = Some s'"
  with Submit show ?thesis by (auto split: if_splits intro: submit_inv)
next
  case (CallStart u)
  assume "limiterInv s" "step s e = Some s'"
  with CallStart show ?thesis by (auto simp: limiterInv_def split: if_splits)
next
  case (CallEnd u)
  assume "limiterInv s" "step s e = Some s'"
  with CallEnd show ?thesis by (auto simp: limiterInv_def distinct_removeAll split: if_splits)
next
  case (Settle u)
  assume "limiterInv s" "step s e = Some s'"
  with Settle show ?thesis by (auto split: if_splits intro: settle_inv)
qed

lemma run_inv: "limiterInv s \<Longrightarrow> run s es = Some s' \<Longrightarrow> limiterInv s' \<and> concurrency s' = concurrency s"
proof (induction es arbitrary: s)
  case Nil
  then show ?case by simp
next
  case (Cons e es)
  from Cons.prems(2) obtain s1 where 1: "step s e = Some s1" and 2: "run s1 es = Some s'"
    by (auto split: option.splits)
  from step_inv [OF Cons.prems(1) 1] have "limiterInv s1" .
  from Cons.IH [OF this 2] step_concurrency [OF 1] show ?case by simp
qed

lemma inFlight_bound:
  assumes "limiterInv s"
  shows "length (inFlight s) \<le> length (active s)"
proof -
  from assms have "card (set (inFlight s)) \<le> card (set (active s))"
    by (intro card_mono) (simp_all add: limiterInv_def)
  with assms show ?thesis
    by (simp add: limiterInv_def distinct_card)
qed


text \<open>
  C9. A client's limiter is created with the configured maximum, 6 by default. Whatever
  units are submitted and whatever they do, in every state the limiter reaches no more
  units have a transport call in flight than hold a slot, and no more hold a slot than
  the maximum. The units that have begun followed by those that wait are the units
  submitted, in the order of submission, and a unit waits only while every slot is
  held. The end of a call and the start of the next call of the same unit, a retry,
  leave the queue and the slots as they are.
\<close>

theorem concurrency_bound:
  "concurrency (newLimiter None) = 6 \<and>
   concurrency (newLimiter (Some c)) = c \<and>
   (\<forall>s. run (newLimiter maxConcurrentRequests) events = Some s \<longrightarrow>
      concurrency s = concurrency (newLimiter maxConcurrentRequests) \<and>
      length (inFlight s) \<le> length (active s) \<and>
      length (active s) \<le> concurrency s \<and>
      began s @ queue s = submitted s \<and>
      (queue s \<noteq> [] \<longrightarrow> length (active s) = concurrency s)) \<and>
   (\<forall>s u s1 s2. step s (CallEnd u) = Some s1 \<and> step s1 (CallStart u) = Some s2 \<longrightarrow>
      queue s2 = queue s \<and> active s2 = active s \<and> began s2 = began s \<and>
      submitted s2 = submitted s \<and> u \<in> set (active s))"
proof (intro conjI allI impI)
  show "concurrency (newLimiter None) = 6"
    by (simp add: newLimiter_def DEFAULT_CONCURRENT_REQUEST_LIMIT_def)
  show "concurrency (newLimiter (Some c)) = c"
    by (simp add: newLimiter_def)
next
  fix s
  assume r: "run (newLimiter maxConcurrentRequests) events = Some s"
  from run_inv [OF newLimiter_inv r]
  have i: "limiterInv s" and c: "concurrency s = concurrency (newLimiter maxConcurrentRequests)"
    by simp_all
  from c show "concurrency s = concurrency (newLimiter maxConcurrentRequests)" .
  from i show "length (inFlight s) \<le> length (active s)" by (rule inFlight_bound)
  from i show "length (active s) \<le> concurrency s" by (simp add: limiterInv_def)
  from i show "began s @ queue s = submitted s" by (simp add: limiterInv_def)
  assume "queue s \<noteq> []"
  with i show "length (active s) = concurrency s" by (simp add: limiterInv_def)
next
  fix s u s1 s2
  assume "step s (CallEnd u) = Some s1 \<and> step s1 (CallStart u) = Some s2"
  then have "queue s2 = queue s \<and> active s2 = active s \<and> began s2 = began s \<and>
      submitted s2 = submitted s \<and> u \<in> set (active s)"
    by (auto split: if_splits)
  then show "queue s2 = queue s" "active s2 = active s" "began s2 = began s"
    "submitted s2 = submitted s" "u \<in> set (active s)"
    by simp_all
qed

theorem concurrency_bound_witness:
  "run (newLimiter (Some 2))
     [Submit 1, Submit 2, Submit 3, CallStart 1, CallEnd 1, CallStart 1, CallStart 2]
     = Some \<lparr>concurrency = 2, queue = [3], active = [1, 2], inFlight = [1, 2],
             submitted = [1, 2, 3], began = [1, 2]\<rparr> \<and>
   length [1, 2 :: nat] \<le> (2 :: nat) \<and> [1, 2] @ [3] = [1, 2, 3 :: nat]"
proof -
  let ?events = "[Submit 1, Submit 2, Submit 3, CallStart 1, CallEnd 1, CallStart 1, CallStart 2]"
  let ?s = "\<lparr>concurrency = 2, queue = [3], active = [1, 2], inFlight = [1, 2],
             submitted = [1, 2, 3], began = [1, 2]\<rparr>"
  have r: "run (newLimiter (Some 2)) ?events = Some ?s"
    by (simp add: newLimiter_def admit_def)
  from concurrency_bound [of 2 "Some 2" ?events] r
  have "length (inFlight ?s) \<le> length (active ?s) \<and> length (active ?s) \<le> concurrency ?s \<and>
        began ?s @ queue ?s = submitted ?s"
    by blast
  with r show ?thesis by simp
qed

end
